theory Spec2Isabelle
  imports Complex_Main
begin

section \<open>Strings and numbers of the source language\<close>

text \<open>
  The program is TypeScript. Its strings are sequences of UTF-16 code units, and the
  regular expression of the scanner (compiled without the \<^verbatim>\<open>u\<close> flag) works on code
  units; a string is therefore a list of code-unit values. \<^verbatim>\<open>ascii\<close> embeds an ASCII
  literal.

  Its numbers are IEEE doubles. The model computes with exact rationals: there is no
  rounding error, no infinity and no NaN. The model and the program agree wherever every
  intermediate value of the program is exactly representable; the rounding of the
  coefficients to four decimals (\<^verbatim>\<open>Math.round(c * 1e4) / 1e4\<close>) is part of the model.
  The simplifier, the solver and the computation of the coefficients are given a second
  time further down, over an arithmetic that is a parameter; what is proved there of the
  solver holds for the doubles of the program.
\<close>

type_synonym cu = nat
type_synonym jsstring = "cu list"
type_synonym num = rat

definition ascii :: "string \<Rightarrow> jsstring" where
  "ascii s = map of_char s"

definition truthy :: "num \<Rightarrow> bool" where
  "truthy x \<longleftrightarrow> x \<noteq> 0"

text \<open>The character classes of the pattern. The pattern carries the flag \<^verbatim>\<open>i\<close>, under
  which \<^verbatim>\<open>[A-Z]\<close> and \<^verbatim>\<open>[a-z]\<close> both match every ASCII letter and a literal \<^verbatim>\<open>s\<close>
  matches \<^verbatim>\<open>s\<close> and \<^verbatim>\<open>S\<close>; no code unit outside ASCII is folded onto an ASCII one.\<close>

definition is_digit :: "cu \<Rightarrow> bool" where
  "is_digit c \<longleftrightarrow> 48 \<le> c \<and> c \<le> 57"

definition is_letter :: "cu \<Rightarrow> bool" where
  "is_letter c \<longleftrightarrow> (65 \<le> c \<and> c \<le> 90) \<or> (97 \<le> c \<and> c \<le> 122)"

definition is_word :: "cu \<Rightarrow> bool" where
  "is_word c \<longleftrightarrow> is_letter c \<or> is_digit c \<or> c = 95"

definition is_space :: "cu \<Rightarrow> bool" where
  "is_space c \<longleftrightarrow> (9 \<le> c \<and> c \<le> 13) \<or> c = 32 \<or> c = 160 \<or> c = 5760
     \<or> (8192 \<le> c \<and> c \<le> 8202) \<or> c = 8232 \<or> c = 8233 \<or> c = 8239 \<or> c = 8287
     \<or> c = 12288 \<or> c = 65279"

definition is_sign :: "cu \<Rightarrow> bool" where
  "is_sign c \<longleftrightarrow> c = 43 \<or> c = 45"

definition is_char :: "cu \<Rightarrow> cu \<Rightarrow> bool" where
  "is_char a c \<longleftrightarrow> c = a"

definition is_s :: "cu \<Rightarrow> bool" where
  "is_s c \<longleftrightarrow> c = 115 \<or> c = 83"

definition is_bracket_char :: "cu \<Rightarrow> bool" where
  "is_bracket_char c \<longleftrightarrow> is_word c \<or> is_space c \<or> is_digit c \<or> c = 42 \<or> c = 91 \<or> c = 93 \<or> c = 46"

abbreviation c_plus :: cu where "c_plus \<equiv> 43"
abbreviation c_minus :: cu where "c_minus \<equiv> 45"
abbreviation c_dot :: cu where "c_dot \<equiv> 46"
abbreviation c_star :: cu where "c_star \<equiv> 42"
abbreviation c_caret :: cu where "c_caret \<equiv> 94"
abbreviation c_lbracket :: cu where "c_lbracket \<equiv> 91"
abbreviation c_rbracket :: cu where "c_rbracket \<equiv> 93"
abbreviation c_yield :: cu where "c_yield \<equiv> 8658"

text \<open>\<^verbatim>\<open>Number(value.replace(/\s*/g, ""))\<close> on the text of a \<^verbatim>\<open>NumberPattern\<close> match: an
  optional sign, integer digits, an optional point and fraction digits, read in base ten.
  (On any other text the program gets NaN; the scanner never passes one.)\<close>

fun digits_val :: "nat \<Rightarrow> jsstring \<Rightarrow> nat" where
  "digits_val acc [] = acc"
| "digits_val acc (c # cs) = digits_val (10 * acc + (c - 48)) cs"

definition unsigned_val :: "jsstring \<Rightarrow> num" where
  "unsigned_val s =
     (let ip = takeWhile is_digit s;
          fp = takeWhile is_digit (drop 1 (dropWhile is_digit s))
      in of_nat (digits_val 0 ip) + of_nat (digits_val 0 fp) / 10 ^ length fp)"

definition js_Number :: "jsstring \<Rightarrow> num" where
  "js_Number value =
     (case filter (\<lambda>c. \<not> is_space c) value of
        [] \<Rightarrow> 0
      | c # s \<Rightarrow> if c = c_minus then - unsigned_val s
                 else if c = c_plus then unsigned_val s
                 else unsigned_val (c # s))"

section \<open>The scanner\<close>

subsection \<open>Regular expressions with backtracking\<close>

text \<open>
  The constructs of the scanner's pattern: a character class, sequence, ordered
  alternative, the greedy optional \<^verbatim>\<open>r?\<close> (also written \<^verbatim>\<open>r{0,1}\<close>), the greedy star of
  a character class, and a named group. Matching follows the ECMAScript semantics: a
  matcher takes the rest of the input, the captures so far and a continuation, and tries
  its choices in order until the continuation succeeds. An optional tries its body first
  and refuses an empty iteration of it (the rest of the input after the body is then the
  rest before it).
\<close>

datatype gname =
  G_SUM | G_FRM_MULT_A | G_BRACKET | G_FRM_MULT_B | G_FRM_CHARGE
  | G_ELM_MULT_A | G_ELEMENT | G_ELM_MULT_B | G_ELM_CHARGE | G_FREE_CHARGE | G_YIELD

type_synonym caps = "gname \<Rightarrow> jsstring option"

datatype pat =
  Cls "cu \<Rightarrow> bool"
  | Seq pat pat
  | Alt pat pat
  | Opt pat
  | Star "cu \<Rightarrow> bool"
  | Group gname pat

fun star :: "(cu \<Rightarrow> bool) \<Rightarrow> jsstring \<Rightarrow> (jsstring \<Rightarrow> 'r option) \<Rightarrow> 'r option" where
  "star p [] k = k []"
| "star p (c # xs) k =
     (if p c then (case star p xs k of Some r \<Rightarrow> Some r | None \<Rightarrow> k (c # xs))
      else k (c # xs))"

fun rmatch :: "pat \<Rightarrow> jsstring \<Rightarrow> caps \<Rightarrow> (jsstring \<Rightarrow> caps \<Rightarrow> 'r option) \<Rightarrow> 'r option" where
  "rmatch (Cls p) xs cs k =
     (case xs of [] \<Rightarrow> None | c # ys \<Rightarrow> if p c then k ys cs else None)"
| "rmatch (Seq a b) xs cs k = rmatch a xs cs (\<lambda>ys cs'. rmatch b ys cs' k)"
| "rmatch (Alt a b) xs cs k =
     (case rmatch a xs cs k of Some r \<Rightarrow> Some r | None \<Rightarrow> rmatch b xs cs k)"
| "rmatch (Opt a) xs cs k =
     (case rmatch a xs cs (\<lambda>ys cs'. if ys = xs then None else k ys cs') of
        Some r \<Rightarrow> Some r
      | None \<Rightarrow> k xs cs)"
| "rmatch (Star p) xs cs k = star p xs (\<lambda>ys. k ys cs)"
| "rmatch (Group n a) xs cs k =
     rmatch a xs cs (\<lambda>ys cs'. k ys (cs'(n \<mapsto> take (length xs - length ys) xs)))"

fun seqs :: "pat list \<Rightarrow> pat" where
  "seqs [] = Star (\<lambda>c. False)"
| "seqs [a] = a"
| "seqs (a # b # rs) = Seq a (seqs (b # rs))"

definition Plus :: "(cu \<Rightarrow> bool) \<Rightarrow> pat" where
  "Plus p = Seq (Cls p) (Star p)"

subsection \<open>The pattern of \<^verbatim>\<open>scan\<close>\<close>

text \<open>
  \<^verbatim>\<open>NumberPattern = "[\+\-]?\s*[0-9]*\s*[.]{0,1}\s*[0-9]+"\<close>. In the trailing multiplier
  of the bracket alternative the source writes \<^verbatim>\<open>\s*\<close> with a single backslash inside a
  template literal, which is the text \<^verbatim>\<open>s*\<close>: any number of letters s.
\<close>

definition NumberPattern :: pat where
  "NumberPattern = seqs [Opt (Cls is_sign), Star is_space, Star is_digit, Star is_space,
     Opt (Cls (is_char c_dot)), Star is_space, Plus is_digit]"

definition frm_alt :: pat where
  "frm_alt = seqs [
     Opt (seqs [Star is_space, Group G_FRM_MULT_A NumberPattern, Star is_space,
                Cls (is_char c_star), Star is_space]),
     Cls (is_char c_lbracket),
     Group G_BRACKET (Star is_bracket_char),
     Cls (is_char c_rbracket),
     Opt (seqs [Star is_space, Cls (is_char c_star), Star is_space, Opt (Cls (is_char c_plus)),
                Star is_space, Group G_FRM_MULT_B NumberPattern, Star is_s]),
     Opt (seqs [Star is_space, Cls (is_char c_caret), Star is_space,
                Group G_FRM_CHARGE NumberPattern, Star is_space])]"

definition elm_alt :: pat where
  "elm_alt = seqs [
     Opt (seqs [Star is_space, Group G_ELM_MULT_A NumberPattern, Star is_space,
                Cls (is_char c_star), Star is_space]),
     Group G_ELEMENT (Seq (Cls is_letter) (Opt (Cls is_letter))),
     Opt (seqs [Star is_space, Cls (is_char c_star), Star is_space, Opt (Cls (is_char c_plus)),
                Star is_space, Group G_ELM_MULT_B NumberPattern, Star is_space]),
     Opt (seqs [Star is_space, Cls (is_char c_caret), Star is_space,
                Group G_ELM_CHARGE NumberPattern, Star is_space])]"

definition regex :: pat where
  "regex = Alt (Group G_SUM (Cls (is_char c_plus)))
          (Alt frm_alt
          (Alt elm_alt
          (Alt (Group G_FREE_CHARGE NumberPattern)
               (Group G_YIELD (Cls (is_char c_yield))))))"

text \<open>\<^verbatim>\<open>regex.exec(str)\<close> with the flag \<^verbatim>\<open>g\<close>: the search starts at \<^verbatim>\<open>lastIndex\<close>, tries
  every start position up to the end of the string, and returns the start of the match,
  the new \<^verbatim>\<open>lastIndex\<close> (the end of the match) and the groups.\<close>

definition match_at :: "jsstring \<Rightarrow> (jsstring \<times> caps) option" where
  "match_at xs = rmatch regex xs (\<lambda>n. None) (\<lambda>ys cs. Some (ys, cs))"

fun search :: "jsstring \<Rightarrow> nat \<Rightarrow> (nat \<times> nat \<times> caps) option" where
  "search [] j =
     (case match_at [] of Some (ys, cs) \<Rightarrow> Some (j, j, cs) | None \<Rightarrow> None)"
| "search (c # xs) j =
     (case match_at (c # xs) of
        Some (ys, cs) \<Rightarrow> Some (j, j + (length (c # xs) - length ys), cs)
      | None \<Rightarrow> search xs (Suc j))"

definition exec :: "jsstring \<Rightarrow> nat \<Rightarrow> (nat \<times> nat \<times> caps) option" where
  "exec str lastIndex =
     (if lastIndex > length str then None else search (drop lastIndex str) lastIndex)"

subsection \<open>Tokens\<close>

text \<open>The type \<^verbatim>\<open>Match\<close>: every field is optional; \<^verbatim>\<open>BRACKET\<close> holds the raw inner text
  or the scanned list of tokens. (The selector of the field \<^verbatim>\<open>SUM\<close> is written \<open>SUM'\<close>.)\<close>

datatype 'm bracket = Raw jsstring | Body "'m list"

datatype match = Match
  (SUM': "jsstring option") (YIELD: "jsstring option") (ELEMENT: "jsstring option")
  (BRACKET: "match bracket option")
  (COUNT: "num option") (CHARGE: "num option") (FREE_CHARGE: "num option")

definition empty_match :: match where
  "empty_match = Match None None None None None None None"

fun set_BRACKET :: "match bracket option \<Rightarrow> match \<Rightarrow> match" where
  "set_BRACKET v (Match s y e b c ch f) = Match s y e v c ch f"

fun set_COUNT :: "num option \<Rightarrow> match \<Rightarrow> match" where
  "set_COUNT v (Match s y e b c ch f) = Match s y e b v ch f"

fun set_FREE_CHARGE :: "num option \<Rightarrow> match \<Rightarrow> match" where
  "set_FREE_CHARGE v (Match s y e b c ch f) = Match s y e b c ch v"

text \<open>The body of the loop over \<^verbatim>\<open>Object.entries(m.groups)\<close>. The key of a group is its
  name without the prefix \<^verbatim>\<open>ELM_\<close> or \<^verbatim>\<open>FRM_\<close> and with \<^verbatim>\<open>MULT_A\<close>, \<^verbatim>\<open>MULT_B\<close> replaced by
  \<^verbatim>\<open>COUNT\<close>. A group that did not take part, or matched the empty string, is skipped. A
  count or charge is converted to a number and multiplies a number that is already
  there; a string never replaces an earlier one.\<close>

fun assign_num :: "num option \<Rightarrow> num \<Rightarrow> num option" where
  "assign_num None res = Some res"
| "assign_num (Some preVal) res = Some (preVal * res)"

fun assign_str :: "'a option \<Rightarrow> 'a \<Rightarrow> 'a option" where
  "assign_str None res = Some res"
| "assign_str (Some preVal) res = Some preVal"

fun assign_group :: "gname \<Rightarrow> jsstring \<Rightarrow> match \<Rightarrow> match" where
  "assign_group G_SUM v (Match s y e b c ch f) = Match (assign_str s v) y e b c ch f"
| "assign_group G_YIELD v (Match s y e b c ch f) = Match s (assign_str y v) e b c ch f"
| "assign_group G_ELEMENT v (Match s y e b c ch f) = Match s y (assign_str e v) b c ch f"
| "assign_group G_BRACKET v (Match s y e b c ch f) = Match s y e (assign_str b (Raw v)) c ch f"
| "assign_group G_FRM_MULT_A v (Match s y e b c ch f) =
     Match s y e b (assign_num c (js_Number v)) ch f"
| "assign_group G_FRM_MULT_B v (Match s y e b c ch f) =
     Match s y e b (assign_num c (js_Number v)) ch f"
| "assign_group G_ELM_MULT_A v (Match s y e b c ch f) =
     Match s y e b (assign_num c (js_Number v)) ch f"
| "assign_group G_ELM_MULT_B v (Match s y e b c ch f) =
     Match s y e b (assign_num c (js_Number v)) ch f"
| "assign_group G_FRM_CHARGE v (Match s y e b c ch f) =
     Match s y e b c (assign_num ch (js_Number v)) f"
| "assign_group G_ELM_CHARGE v (Match s y e b c ch f) =
     Match s y e b c (assign_num ch (js_Number v)) f"
| "assign_group G_FREE_CHARGE v (Match s y e b c ch f) =
     Match s y e b c ch (assign_num f (js_Number v))"

definition group_names :: "gname list" where
  "group_names = [G_SUM, G_FRM_MULT_A, G_BRACKET, G_FRM_MULT_B, G_FRM_CHARGE,
     G_ELM_MULT_A, G_ELEMENT, G_ELM_MULT_B, G_ELM_CHARGE, G_FREE_CHARGE, G_YIELD]"

definition group_step :: "caps \<Rightarrow> gname \<Rightarrow> match \<Rightarrow> match" where
  "group_step groups group_name m =
     (case groups group_name of
        None \<Rightarrow> m
      | Some v \<Rightarrow> if v = [] then m else assign_group group_name v m)"

definition build_match :: "caps \<Rightarrow> match" where
  "build_match groups = fold (group_step groups) group_names empty_match"

subsection \<open>The scanning loop\<close>

text \<open>
  \<^verbatim>\<open>while ((m = regex.exec(str)) !== null)\<close>: the loop may a priori run forever, so it is
  a partial function whose value \<^verbatim>\<open>None\<close> stands for not returning. A match of width zero
  advances \<^verbatim>\<open>lastIndex\<close> by one. A bracket text longer than two code units is scanned in
  turn.
\<close>

definition next_lastIndex :: "nat \<Rightarrow> nat \<Rightarrow> nat" where
  "next_lastIndex index lastIndex = (if index = lastIndex then lastIndex + 1 else lastIndex)"

partial_function (option) scan_loop :: "jsstring \<Rightarrow> nat \<Rightarrow> match list option" where
  "scan_loop str lastIndex =
     (case exec str lastIndex of
        None \<Rightarrow> Some []
      | Some (index, e, groups) \<Rightarrow>
          Option.bind
            (case BRACKET (build_match groups) of
               Some (Raw b) \<Rightarrow>
                 if length b > 2
                 then Option.bind (scan_loop b 0)
                        (\<lambda>body. Some (set_BRACKET (Some (Body body)) (build_match groups)))
                 else Some (build_match groups)
             | _ \<Rightarrow> Some (build_match groups))
            (\<lambda>m. Option.bind (scan_loop str (next_lastIndex index e))
                   (\<lambda>matches. Some (m # matches))))"

declare scan_loop.simps [code]

definition scan :: "jsstring \<Rightarrow> match list option" where
  "scan str = scan_loop str 0"

section \<open>Errors\<close>

text \<open>Every \<^verbatim>\<open>throw\<close> of the program is a value of this type: the three validator errors
  (the first with its two messages), the singular matrix of the solver, and the
  argument checks of the matrix routines.\<close>

datatype error =
  MissingYield
  | DuplicateYield
  | ElementMismatch
  | TooManyCoefficients
  | SingularMatrix
  | NotA2DArray
  | IncompatibleMultiplication
  | IncompatibleGaussian
  | IncompatibleAugmentation

section \<open>The compound simplifier\<close>

text \<open>An \<^verbatim>\<open>AbstractToken\<close> is an object whose string keys (in insertion order, which the
  builder of the matrix relies on) map to numbers, and which may carry the default
  coefficient under the private symbol \<^verbatim>\<open>_default\<close>. A read of a key that the object does
  not have gives \<^verbatim>\<open>undefined\<close>, here \<open>None\<close>; the names of the properties that every object
  inherits are longer than the one or two letters of a scanned element symbol.\<close>

record abstract_token =
  entries :: "(jsstring \<times> num) list"
  dflt :: "num option"

definition k_CHARGE :: jsstring where
  "k_CHARGE = ascii ''CHARGE''"

definition keys :: "abstract_token \<Rightarrow> jsstring list" where
  "keys t = map fst (entries t)"

definition get_prop :: "abstract_token \<Rightarrow> jsstring \<Rightarrow> num option" where
  "get_prop t k = map_of (entries t) k"

fun set_entry :: "jsstring \<Rightarrow> num \<Rightarrow> (jsstring \<times> num) list \<Rightarrow> (jsstring \<times> num) list" where
  "set_entry k v [] = [(k, v)]"
| "set_entry k v ((k', v') # es) = (if k' = k then (k, v) # es else (k', v') # set_entry k v es)"

definition set_prop :: "jsstring \<Rightarrow> num \<Rightarrow> abstract_token \<Rightarrow> abstract_token" where
  "set_prop k v t = t\<lparr>entries := set_entry k v (entries t)\<rparr>"

text \<open>\<^verbatim>\<open>x || d\<close> on an optional number: the default replaces \<^verbatim>\<open>undefined\<close> and zero.\<close>

definition or_else :: "num option \<Rightarrow> num \<Rightarrow> num" where
  "or_else x d = (case x of None \<Rightarrow> d | Some v \<Rightarrow> if truthy v then v else d)"

text \<open>The loop \<^verbatim>\<open>for (let elm in abs)\<close>: the counts of a simplified child are added to the
  parent's, multiplied by the parent's count; the child's charge is skipped.\<close>

definition add_count :: "num \<Rightarrow> jsstring \<times> num \<Rightarrow> abstract_token \<Rightarrow> abstract_token" where
  "add_count count kv abstract =
     (if fst kv = k_CHARGE then abstract
      else case get_prop abstract (fst kv) of
             None \<Rightarrow> set_prop (fst kv) (count * snd kv) abstract
           | Some old \<Rightarrow> set_prop (fst kv) (old + count * snd kv) abstract)"

definition merge_abs :: "num \<Rightarrow> abstract_token option \<Rightarrow> abstract_token \<Rightarrow> abstract_token" where
  "merge_abs count child abstract =
     (case child of None \<Rightarrow> abstract | Some a \<Rightarrow> fold (add_count count) (entries a) abstract)"

definition init_abstract :: abstract_token where
  "init_abstract = \<lparr>entries = [(k_CHARGE, 0)], dflt = None\<rparr>"

fun simplifyCompound :: "match \<Rightarrow> bool \<Rightarrow> abstract_token option" where
  "simplifyCompound (Match s y e b c ch f) branch =
     (case e of
        Some element \<Rightarrow>
          Some (set_prop k_CHARGE (or_else ch 0) (set_prop element (or_else c 1) init_abstract))
      | None \<Rightarrow>
         (case b of
            Some br \<Rightarrow>
              (let abstract0 = init_abstract\<lparr>dflt :=
                     (case c of Some v \<Rightarrow> if \<not> branch \<and> truthy v then Some v else None
                      | None \<Rightarrow> None)\<rparr>;
                   count = (if branch then or_else c 1 else 1);
                   abstract1 = set_prop k_CHARGE (or_else ch 0) abstract0
               in case br of
                    Raw text \<Rightarrow> Some abstract1
                  | Body items \<Rightarrow>
                      Some (fold (\<lambda>item abstract. merge_abs count (simplifyCompound item True) abstract)
                              items abstract1))
          | None \<Rightarrow>
             (case f of
                Some free \<Rightarrow> Some (set_prop k_CHARGE free init_abstract)
              | None \<Rightarrow> None)))"

section \<open>The semantic validator\<close>

fun findIndex :: "('a \<Rightarrow> bool) \<Rightarrow> 'a list \<Rightarrow> nat option" where
  "findIndex P [] = None"
| "findIndex P (x # xs) = (if P x then Some 0 else map_option Suc (findIndex P xs))"

fun findLastIndex :: "('a \<Rightarrow> bool) \<Rightarrow> 'a list \<Rightarrow> nat option" where
  "findLastIndex P [] = None"
| "findLastIndex P (x # xs) =
     (case findLastIndex P xs of
        Some i \<Rightarrow> Some (Suc i)
      | None \<Rightarrow> if P x then Some 0 else None)"

definition has_YIELD :: "match \<Rightarrow> bool" where
  "has_YIELD e \<longleftrightarrow> YIELD e \<noteq> None"

definition mustHaveOneYield :: "match list \<Rightarrow> error option" where
  "mustHaveOneYield ast =
     (case findIndex has_YIELD ast of
        None \<Rightarrow> Some MissingYield
      | Some index \<Rightarrow>
          if findLastIndex has_YIELD ast \<noteq> Some index then Some DuplicateYield else None)"

text \<open>The two sets of \<^verbatim>\<open>mustHaveTheSameElements\<close>, in insertion order, and the loop that
  deletes every element of the left set from the right one and stops at the first that
  is not there.\<close>

definition add_key :: "jsstring \<Rightarrow> jsstring list \<Rightarrow> jsstring list" where
  "add_key k s = (if k \<in> set s then s else s @ [k])"

definition element_names :: "abstract_token list \<Rightarrow> jsstring list" where
  "element_names comps =
     fold (\<lambda>comp s. fold add_key (filter (\<lambda>key. key \<noteq> k_CHARGE) (keys comp)) s) comps []"

fun delete_loop :: "jsstring list \<Rightarrow> jsstring list \<Rightarrow> bool \<times> jsstring list" where
  "delete_loop [] elementsRight = (False, elementsRight)"
| "delete_loop (element # rest) elementsRight =
     (if element \<in> set elementsRight then delete_loop rest (removeAll element elementsRight)
      else (True, elementsRight))"

definition mustHaveTheSameElements :: "abstract_token list \<Rightarrow> abstract_token list \<Rightarrow> error option" where
  "mustHaveTheSameElements left right =
     (let (mismatchFound, elementsRight) = delete_loop (element_names left) (element_names right)
      in if mismatchFound \<or> length elementsRight > 0 then Some ElementMismatch else None)"

definition has_default :: "abstract_token \<Rightarrow> bool" where
  "has_default token \<longleftrightarrow> (case dflt token of None \<Rightarrow> False | Some d \<Rightarrow> truthy d)"

definition mustHaveLessThanTwoCoefficient :: "abstract_token list \<Rightarrow> abstract_token list \<Rightarrow> error option" where
  "mustHaveLessThanTwoCoefficient left right =
     (let count = length (filter has_default left) + length (filter has_default right)
      in if count > 1 then Some TooManyCoefficients else None)"

section \<open>The linear system\<close>

type_synonym TwoDimMat = "num list list"

text \<open>
  \<^verbatim>\<open>makeAandB\<close>. The rows follow the string keys of all compounds in first-seen order
  (\<^verbatim>\<open>Object.keys\<close> leaves the symbol \<^verbatim>\<open>_default\<close> out and includes \<^verbatim>\<open>CHARGE\<close>). The loop
  over the rows runs one row further; there \<^verbatim>\<open>elements[i]\<close> is \<^verbatim>\<open>undefined\<close> and the
  property read is the one named \<^verbatim>\<open>undefined\<close>. The last compound that carries a default
  coefficient gives \<^verbatim>\<open>index\<close> and \<^verbatim>\<open>coeff\<close>. The assignment \<^verbatim>\<open>A[numEquations][index] = 1\<close>
  writes past the end of the row when there is no compound at all, which makes the row
  one longer.
\<close>

definition elementsSet :: "abstract_token list \<Rightarrow> jsstring list" where
  "elementsSet tokens = fold (\<lambda>token s. fold add_key (keys token) s) tokens []"

definition extractDefault :: "abstract_token list \<Rightarrow> nat \<times> num" where
  "extractDefault tokens =
     fold (\<lambda>(i, token) (index, coeff).
             if has_default token then (i, the (dflt token)) else (index, coeff))
          (enumerate 0 tokens) (0, 1)"

definition element_at :: "jsstring list \<Rightarrow> nat \<Rightarrow> jsstring" where
  "element_at elements i = (if i < length elements then elements ! i else ascii ''undefined'')"

definition set_index :: "'a list \<Rightarrow> nat \<Rightarrow> 'a \<Rightarrow> 'a list" where
  "set_index xs i v = (if i < length xs then xs[i := v] else xs @ [v])"

definition matrix_row :: "abstract_token list \<Rightarrow> abstract_token list \<Rightarrow> jsstring \<Rightarrow> num list" where
  "matrix_row left right key =
     map (\<lambda>j. or_else (get_prop (left ! j) key) 0) [0..<length left]
     @ map (\<lambda>j. or_else (map_option uminus (get_prop (right ! (j - length left)) key)) 0)
         [length left..<length left + length right]"

definition makeAandB :: "abstract_token list \<Rightarrow> abstract_token list \<Rightarrow> TwoDimMat \<times> TwoDimMat" where
  "makeAandB left right =
     (let elements = elementsSet (left @ right);
          (index, coeff) = extractDefault (left @ right);
          numEquations = length elements;
          A = map (\<lambda>i. matrix_row left right (element_at elements i)) [0..<numEquations + 1];
          B = replicate (numEquations + 1) [0]
      in (A[numEquations := set_index (A ! numEquations) index 1], B[numEquations := [coeff]]))"

section \<open>The solver\<close>

text \<open>
  Matrices are arrays of rows. The program reads \<^verbatim>\<open>M[i][j]\<close> without a bounds check: a
  read outside a row gives \<^verbatim>\<open>undefined\<close> there, whereas \<open>!\<close> outside a list is
  unspecified here. The routines are applied to rectangular matrices only, which is what
  \<^verbatim>\<open>makeAandB\<close> builds, so every read below is inside its row.
\<close>

definition transpose_mat :: "TwoDimMat \<Rightarrow> error + TwoDimMat" where
  "transpose_mat matrix =
     (if matrix = [] then Inl NotA2DArray
      else let rows = length matrix; cols = length (matrix ! 0)
           in Inr (map (\<lambda>j. map (\<lambda>i. matrix ! i ! j) [0..<rows]) [0..<cols]))"

definition multiply :: "TwoDimMat \<Rightarrow> TwoDimMat \<Rightarrow> error + TwoDimMat" where
  "multiply A B =
     (if A = [] \<or> B = [] \<or> length (A ! 0) \<noteq> length B then Inl IncompatibleMultiplication
      else let rowsA = length A; colsA = length (A ! 0); colsB = length (B ! 0)
           in Inr (map (\<lambda>i. map (\<lambda>j. sum_list (map (\<lambda>k. A ! i ! k * B ! k ! j) [0..<colsA]))
                                 [0..<colsB])
                       [0..<rowsA]))"

definition findPivot :: "TwoDimMat \<Rightarrow> nat \<Rightarrow> nat" where
  "findPivot M k =
     fold (\<lambda>i i_max. if \<bar>M ! i ! k\<bar> > \<bar>M ! i_max ! k\<bar> then i else i_max) [k + 1..<length M] k"

definition swap_rows :: "TwoDimMat \<Rightarrow> nat \<Rightarrow> nat \<Rightarrow> TwoDimMat" where
  "swap_rows M i_max k = (if i_max \<noteq> k then M[i_max := M ! k, k := M ! i_max] else M)"

text \<open>One row of the elimination: \<^verbatim>\<open>c = A[i][k] / A[k][k]\<close>, then
  \<^verbatim>\<open>A[i][j] = A[i][j] - A[k][j] * c\<close> for the columns right of \<open>k\<close>, then \<^verbatim>\<open>A[i][k] = 0\<close>.\<close>

definition eliminate_row :: "nat \<Rightarrow> nat \<Rightarrow> num list \<Rightarrow> num list \<Rightarrow> num list" where
  "eliminate_row k n Ak Ai =
     (let c = Ai ! k / Ak ! k
      in (fold (\<lambda>j r. r[j := r ! j - Ak ! j * c]) [k + 1..<n] Ai)[k := 0])"

definition eliminate :: "nat \<Rightarrow> nat \<Rightarrow> TwoDimMat \<Rightarrow> TwoDimMat" where
  "eliminate k n A = fold (\<lambda>i A. A[i := eliminate_row k n (A ! k) (A ! i)]) [k + 1..<length A] A"

definition diagonalize_step :: "nat \<Rightarrow> nat \<Rightarrow> TwoDimMat \<Rightarrow> error + TwoDimMat" where
  "diagonalize_step n k A =
     (let i_max = findPivot A k
      in if A ! i_max ! k = 0 then Inl SingularMatrix
         else Inr (eliminate k n (swap_rows A k i_max)))"

definition diagonalize :: "TwoDimMat \<Rightarrow> error + TwoDimMat" where
  "diagonalize A =
     (let m = length A; n = length (A ! 0); min_m_n = min m n
      in fold (\<lambda>k r. case r of Inl err \<Rightarrow> Inl err | Inr A' \<Rightarrow> diagonalize_step n k A')
           [0..<min_m_n] (Inr A))"

definition makeM :: "TwoDimMat \<Rightarrow> TwoDimMat \<Rightarrow> error + TwoDimMat" where
  "makeM A b =
     (let n = length A
      in if n \<noteq> length (A ! 0) \<or> n \<noteq> length b then Inl IncompatibleAugmentation
         else Inr (map (\<lambda>i. A ! i @ [b ! i ! 0]) [0..<n]))"

text \<open>Back substitution, from the last row up: \<^verbatim>\<open>x = M[i][m] / M[i][i]\<close>, the rows above
  get \<^verbatim>\<open>M[j][m] -= x * M[j][i]\<close> and \<^verbatim>\<open>M[j][i] = 0\<close>, then \<^verbatim>\<open>M[i][m] = x\<close> and
  \<^verbatim>\<open>M[i][i] = 1\<close>.\<close>

definition substitute_row :: "nat \<Rightarrow> nat \<Rightarrow> num \<Rightarrow> num list \<Rightarrow> num list" where
  "substitute_row m i x Mj = (Mj[m := Mj ! m - x * Mj ! i])[i := 0]"

definition substitute_step :: "nat \<Rightarrow> nat \<Rightarrow> TwoDimMat \<Rightarrow> TwoDimMat" where
  "substitute_step m i M =
     (let x = M ! i ! m / M ! i ! i;
          M' = fold (\<lambda>j M. M[j := substitute_row m i x (M ! j)]) (rev [0..<i]) M
      in M'[i := ((M' ! i)[m := x])[i := 1]])"

definition substitute :: "TwoDimMat \<Rightarrow> TwoDimMat" where
  "substitute M = (let m = length M in fold (substitute_step m) (rev [0..<m]) M)"

definition extractX :: "TwoDimMat \<Rightarrow> num list" where
  "extractX M = (let m = length M; n = length (M ! 0) in map (\<lambda>i. M ! i ! (n - 1)) [0..<m])"

definition copy :: "TwoDimMat \<Rightarrow> TwoDimMat" where
  "copy M = (let m = length M; n = length (M ! 0) in map (\<lambda>i. map (\<lambda>j. M ! i ! j) [0..<n]) [0..<m])"

definition gaussian_elimination_calc :: "TwoDimMat \<Rightarrow> TwoDimMat \<Rightarrow> error + num list" where
  "gaussian_elimination_calc A B =
     (let newA = copy A; newB = copy B
      in if length A \<noteq> length (A ! 0) \<or> length A \<noteq> length B then Inl IncompatibleGaussian
         else case makeM newA newB of
                Inl err \<Rightarrow> Inl err
              | Inr M \<Rightarrow>
                 (case diagonalize M of
                    Inl err \<Rightarrow> Inl err
                  | Inr D \<Rightarrow> Inr (extractX (substitute D))))"

definition solve :: "TwoDimMat \<Rightarrow> TwoDimMat \<Rightarrow> error + num list" where
  "solve A B =
     (case transpose_mat A of
        Inl err \<Rightarrow> Inl err
      | Inr AT \<Rightarrow>
         (case multiply AT A of
            Inl err \<Rightarrow> Inl err
          | Inr ATA \<Rightarrow>
             (case multiply AT B of
                Inl err \<Rightarrow> Inl err
              | Inr ATB \<Rightarrow> gaussian_elimination_calc ATA ATB)))"

section \<open>The stringifier\<close>

text \<open>
  \<^verbatim>\<open>n.toString()\<close> in positional decimal notation: a minus sign, the integer digits and,
  when there is a fraction, a point and the fraction digits. This is what the program
  prints for a number whose decimal expansion ends within twenty places and whose
  magnitude is below \<open>10\<^sup>2\<^sup>1\<close> and, unless zero, at least \<open>10\<^sup>-\<^sup>6\<close> (outside that range it prints
  an exponent).
\<close>

function nat_digits :: "nat \<Rightarrow> jsstring" where
  "nat_digits n = (if n < 10 then [48 + n] else nat_digits (n div 10) @ [48 + n mod 10])"
  by pat_completeness auto
termination
  by (relation "measure id") auto

fun frac_digits :: "nat \<Rightarrow> num \<Rightarrow> jsstring" where
  "frac_digits 0 x = []"
| "frac_digits (Suc fuel) x =
     (if x = 0 then []
      else let d = nat \<lfloor>x * 10\<rfloor> in (48 + d) # frac_digits fuel (x * 10 - of_nat d))"

definition js_toString :: "num \<Rightarrow> jsstring" where
  "js_toString n =
     (let a = \<bar>n\<bar>; ip = nat \<lfloor>a\<rfloor>; fp = a - of_nat ip
      in (if n < 0 then [c_minus] else []) @ nat_digits ip
         @ (if fp = 0 then [] else c_dot # frac_digits 20 fp))"

text \<open>The maps \<^verbatim>\<open>subscript\<close> and \<^verbatim>\<open>superscript\<close>: a character without an entry maps to
  \<^verbatim>\<open>undefined\<close>, which \<^verbatim>\<open>join("")\<close> writes as the empty string.\<close>

definition subscript :: "cu \<Rightarrow> jsstring" where
  "subscript d = (if is_digit d then [8320 + (d - 48)] else if d = c_dot then [c_dot] else [])"

definition superscript :: "cu \<Rightarrow> jsstring" where
  "superscript d =
     (if d = 48 then [8304] else if d = 49 then [185] else if d = 50 then [178]
      else if d = 51 then [179] else if is_digit d then [8304 + (d - 48)]
      else if d = c_dot then [183] else [])"

definition num2super :: "num \<Rightarrow> jsstring" where
  "num2super n =
     (if n > 0 then [8314] else if n < 0 then [8315] else [])
     @ concat (map superscript (js_toString n))"

definition num2sub :: "num \<Rightarrow> jsstring" where
  "num2sub n = concat (map subscript (js_toString n))"

definition count_of :: "match \<Rightarrow> num" where
  "count_of m = (case COUNT m of None \<Rightarrow> 1 | Some v \<Rightarrow> v)"

definition charge_of :: "match \<Rightarrow> num" where
  "charge_of m = (case CHARGE m of None \<Rightarrow> 0 | Some v \<Rightarrow> v)"

definition stringifyElement :: "match \<Rightarrow> jsstring" where
  "stringifyElement m =
     (case ELEMENT m of None \<Rightarrow> ascii ''undefined'' | Some name \<Rightarrow> name)
     @ (if count_of m \<noteq> 1 then num2sub (count_of m) else [])
     @ (if truthy (charge_of m) then num2super (charge_of m) else [])"

fun stringifyFormula :: "match \<Rightarrow> bool \<Rightarrow> jsstring" where
  "stringifyFormula (Match s y e b c ch f) main =
     (let cnt = (case c of None \<Rightarrow> 1 | Some v \<Rightarrow> v);
          chg = (case ch of None \<Rightarrow> 0 | Some v \<Rightarrow> v);
          str = (case b of
                   Some (Body items) \<Rightarrow>
                     concat (map (\<lambda>obj.
                       (if ELEMENT obj \<noteq> None then stringifyElement obj else [])
                       @ (if BRACKET obj \<noteq> None \<and> or_else (COUNT obj) 0 \<noteq> 0
                          then [40] @ stringifyFormula obj False @ [41]
                               @ (if count_of obj \<noteq> 1 then num2sub (count_of obj) else [])
                          else [])) items)
                 | _ \<Rightarrow> [])
      in (if main \<and> cnt \<noteq> 1 then js_toString cnt else []) @ str
         @ (if truthy chg then num2super chg else []))"

text \<open>\<^verbatim>\<open>stringifyOperator\<close> returns the value of the last property of the token. It is
  called on tokens with the key \<^verbatim>\<open>YIELD\<close> or \<^verbatim>\<open>SUM\<close> and none of \<^verbatim>\<open>BRACKET\<close>, \<^verbatim>\<open>ELEMENT\<close>,
  \<^verbatim>\<open>FREE_CHARGE\<close>; the scanner builds such a token with that one property.\<close>

definition stringifyOperator :: "match \<Rightarrow> jsstring" where
  "stringifyOperator m =
     (case YIELD m of Some v \<Rightarrow> v | None \<Rightarrow> (case SUM' m of Some v \<Rightarrow> v | None \<Rightarrow> []))"

definition stringifyFreeCharge :: "match \<Rightarrow> jsstring" where
  "stringifyFreeCharge m =
     (case FREE_CHARGE m of
        None \<Rightarrow> []
      | Some v \<Rightarrow> if truthy v then ascii ''+e'' @ num2super v else [])"

definition stringify_token :: "match \<Rightarrow> jsstring" where
  "stringify_token obj =
     (if BRACKET obj \<noteq> None then stringifyFormula obj True
      else if ELEMENT obj \<noteq> None then stringifyElement obj
      else if FREE_CHARGE obj \<noteq> None then stringifyFreeCharge obj
      else if YIELD obj \<noteq> None \<or> SUM' obj \<noteq> None then stringifyOperator obj
      else [])"

definition stringify :: "match list \<Rightarrow> jsstring" where
  "stringify ast = concat (map (\<lambda>obj. stringify_token obj @ [32]) ast)"

section \<open>The computation\<close>

definition round4 :: "num \<Rightarrow> num" where
  "round4 c = of_int \<lfloor>c * 10000 + 1 / 2\<rfloor> / 10000"

definition indexOfYield :: "match list \<Rightarrow> nat option" where
  "indexOfYield ast = findIndex has_YIELD ast"

definition compounds :: "abstract_token option list \<Rightarrow> abstract_token list" where
  "compounds ts = map the (filter (\<lambda>t. t \<noteq> None) ts)"

text \<open>
  Steps 10 and 11 of \<^verbatim>\<open>compute\<close>: the compounds of the left side and then of the right
  side receive the coefficients in order, and every token that simplified to a compound
  gets its coefficient written into \<^verbatim>\<open>COUNT\<close>, or multiplied into a non-zero
  \<^verbatim>\<open>FREE_CHARGE\<close>. A token at the position of the yield that simplifies to a compound
  belongs to neither side and has no coefficient; the program then stores \<^verbatim>\<open>undefined\<close>
  in \<^verbatim>\<open>COUNT\<close> (as here) or NaN in \<^verbatim>\<open>FREE_CHARGE\<close> (here the field is left as it is). The
  scanner builds no such token.
\<close>

fun distribute :: "nat \<Rightarrow> nat \<Rightarrow> abstract_token option list \<Rightarrow> num list \<Rightarrow> num option option list" where
  "distribute i index [] coeffs = []"
| "distribute i index (t # ts) coeffs =
     (if t = None then None # distribute (Suc i) index ts coeffs
      else if i = index then Some None # distribute (Suc i) index ts coeffs
      else Some (case coeffs of [] \<Rightarrow> None | c # cs \<Rightarrow> Some c)
           # distribute (Suc i) index ts (tl coeffs))"

definition update_token :: "match \<Rightarrow> num option option \<Rightarrow> match" where
  "update_token tok slot =
     (case slot of
        None \<Rightarrow> tok
      | Some COEFF \<Rightarrow>
          if or_else (FREE_CHARGE tok) 0 \<noteq> 0
          then (case COEFF of
                  None \<Rightarrow> tok
                | Some c \<Rightarrow> set_FREE_CHARGE (Some (the (FREE_CHARGE tok) * c)) tok)
          else set_COUNT COEFF tok)"

record computation =
  coeffs :: "num list"
  updated :: "match list"
  result :: jsstring

definition compute :: "match list \<Rightarrow> error + computation" where
  "compute ast =
     (case mustHaveOneYield ast of
        Some err \<Rightarrow> Inl err
      | None \<Rightarrow>
         (case indexOfYield ast of
            None \<Rightarrow> Inl MissingYield
          | Some index \<Rightarrow>
             (let mappedAST = map (\<lambda>tok. simplifyCompound tok False) ast;
                  leftTokens = compounds (take index mappedAST);
                  rightTokens = compounds (drop (index + 1) mappedAST)
              in case mustHaveTheSameElements leftTokens rightTokens of
                   Some err \<Rightarrow> Inl err
                 | None \<Rightarrow>
                    (case mustHaveLessThanTwoCoefficient leftTokens rightTokens of
                       Some err \<Rightarrow> Inl err
                     | None \<Rightarrow>
                        (case solve (fst (makeAandB leftTokens rightTokens))
                                    (snd (makeAandB leftTokens rightTokens)) of
                           Inl err \<Rightarrow> Inl err
                         | Inr x \<Rightarrow>
                            (let cs = map round4 x;
                                 ast' = map2 update_token ast (distribute 0 index mappedAST cs)
                             in Inr \<lparr>coeffs = cs, updated = ast', result = stringify ast'\<rparr>))))))"

section \<open>The program as its callers use it\<close>

text \<open>The user interface calls \<^verbatim>\<open>compute(scan(text))\<close>; \<^verbatim>\<open>compute\<close> publishes the rendered
  equation and writes the coefficients into the tokens. \<open>run\<close> gives the coefficients and
  the rendered string for a text, \<open>coefficients\<close> the coefficients for a token list when
  \<^verbatim>\<open>compute\<close> succeeds, and \<open>leftTokens\<close> and \<open>rightTokens\<close> the compounds of the two sides
  as \<^verbatim>\<open>compute\<close> forms them.\<close>

definition run :: "jsstring \<Rightarrow> (error + num list \<times> jsstring) option" where
  "run text =
     (case scan text of
        None \<Rightarrow> None
      | Some ast \<Rightarrow>
          Some (case compute ast of Inl err \<Rightarrow> Inl err | Inr r \<Rightarrow> Inr (coeffs r, result r)))"

definition coefficients :: "match list \<Rightarrow> num list option" where
  "coefficients ast = (case compute ast of Inl err \<Rightarrow> None | Inr r \<Rightarrow> Some (coeffs r))"

definition leftTokens :: "match list \<Rightarrow> nat \<Rightarrow> abstract_token list" where
  "leftTokens ast index = compounds (take index (map (\<lambda>tok. simplifyCompound tok False) ast))"

definition rightTokens :: "match list \<Rightarrow> nat \<Rightarrow> abstract_token list" where
  "rightTokens ast index =
     compounds (drop (index + 1) (map (\<lambda>tok. simplifyCompound tok False) ast))"

section \<open>The arithmetic of the machine\<close>

text \<open>
  In the program each of \<^verbatim>\<open>+\<close>, \<^verbatim>\<open>-\<close>, \<^verbatim>\<open>*\<close> and \<^verbatim>\<open>/\<close> returns a double: the exact result
  rounded, or an infinity or NaN. The definitions of this section are the solver, the
  simplifier and the steps 1 to 9 of \<^verbatim>\<open>compute\<close> once more, operation by operation as the
  source writes them, over an arithmetic that is a parameter: the four operations, the
  constants \<^verbatim>\<open>0\<close> and \<^verbatim>\<open>1\<close> that the solver stores, the test \<^verbatim>\<open>x == 0\<close> of the pivot, and the
  comparison \<^verbatim>\<open>Math.abs(x) > Math.abs(y)\<close> of the pivot search. The solver is given for
  numbers of any type, so that what holds of it for every arithmetic holds for the doubles
  of the program, NaN and the infinities included. The simplifier and \<^verbatim>\<open>compute\<close> are
  given for the numbers of the tokens, with any four operations on them.
\<close>

record 'a arith =
  m_add :: "'a \<Rightarrow> 'a \<Rightarrow> 'a"
  m_sub :: "'a \<Rightarrow> 'a \<Rightarrow> 'a"
  m_mul :: "'a \<Rightarrow> 'a \<Rightarrow> 'a"
  m_div :: "'a \<Rightarrow> 'a \<Rightarrow> 'a"
  m_zero :: 'a
  m_one :: 'a
  m_is_zero :: "'a \<Rightarrow> bool"
  m_abs_gt :: "'a \<Rightarrow> 'a \<Rightarrow> bool"

text \<open>Finite doubles are rational numbers, and an operation on them whose result does not
  overflow returns the exact result rounded: with \<^verbatim>\<open>rnd\<close> the rounding to the nearest double
  this is the arithmetic of the program on such numbers, and with \<^verbatim>\<open>rnd\<close> the identity it is
  the exact arithmetic of the definitions above.\<close>

definition machine :: "(num \<Rightarrow> num) \<Rightarrow> num arith" where
  "machine rnd =
     \<lparr>m_add = (\<lambda>x y. rnd (x + y)), m_sub = (\<lambda>x y. rnd (x - y)),
      m_mul = (\<lambda>x y. rnd (x * y)), m_div = (\<lambda>x y. rnd (x / y)),
      m_zero = 0, m_one = 1, m_is_zero = (\<lambda>x. x = 0), m_abs_gt = (\<lambda>x y. \<bar>x\<bar> > \<bar>y\<bar>)\<rparr>"

subsection \<open>The solver\<close>

definition transpose_m :: "'a list list \<Rightarrow> error + 'a list list" where
  "transpose_m matrix =
     (if matrix = [] then Inl NotA2DArray
      else let rows = length matrix; cols = length (matrix ! 0)
           in Inr (map (\<lambda>j. map (\<lambda>i. matrix ! i ! j) [0..<rows]) [0..<cols]))"

text \<open>\<^verbatim>\<open>let sum = 0\<close>, then \<^verbatim>\<open>sum += A[i][k] * B[k][j]\<close> for every \<open>k\<close> in turn.\<close>

definition multiply_m :: "'a arith \<Rightarrow> 'a list list \<Rightarrow> 'a list list \<Rightarrow> error + 'a list list" where
  "multiply_m ar A B =
     (if A = [] \<or> B = [] \<or> length (A ! 0) \<noteq> length B then Inl IncompatibleMultiplication
      else let rowsA = length A; colsA = length (A ! 0); colsB = length (B ! 0)
           in Inr (map (\<lambda>i. map (\<lambda>j. fold (\<lambda>k sum. m_add ar sum (m_mul ar (A ! i ! k) (B ! k ! j)))
                                          [0..<colsA] (m_zero ar))
                                 [0..<colsB])
                       [0..<rowsA]))"

definition findPivot_m :: "'a arith \<Rightarrow> 'a list list \<Rightarrow> nat \<Rightarrow> nat" where
  "findPivot_m ar M k =
     fold (\<lambda>i i_max. if m_abs_gt ar (M ! i ! k) (M ! i_max ! k) then i else i_max)
       [k + 1..<length M] k"

definition swap_m :: "'a list list \<Rightarrow> nat \<Rightarrow> nat \<Rightarrow> 'a list list" where
  "swap_m M i_max k = (if i_max \<noteq> k then M[i_max := M ! k, k := M ! i_max] else M)"

text \<open>\<^verbatim>\<open>c = A[i][k] / A[k][k]\<close>, then \<^verbatim>\<open>A[i][j] = A[i][j] - A[k][j] * c\<close> for the columns
  right of \<open>k\<close>, then \<^verbatim>\<open>A[i][k] = 0\<close>. The test \<^verbatim>\<open>A[i_max][k] == 0\<close> is made on the number
  that the steps before have computed.\<close>

definition eliminate_row_m :: "'a arith \<Rightarrow> nat \<Rightarrow> nat \<Rightarrow> 'a list \<Rightarrow> 'a list \<Rightarrow> 'a list" where
  "eliminate_row_m ar k n Ak Ai =
     (let c = m_div ar (Ai ! k) (Ak ! k)
      in (fold (\<lambda>j r. r[j := m_sub ar (r ! j) (m_mul ar (Ak ! j) c)]) [k + 1..<n] Ai)
           [k := m_zero ar])"

definition eliminate_m :: "'a arith \<Rightarrow> nat \<Rightarrow> nat \<Rightarrow> 'a list list \<Rightarrow> 'a list list" where
  "eliminate_m ar k n A =
     fold (\<lambda>i A. A[i := eliminate_row_m ar k n (A ! k) (A ! i)]) [k + 1..<length A] A"

definition diagonalize_step_m ::
  "'a arith \<Rightarrow> nat \<Rightarrow> nat \<Rightarrow> 'a list list \<Rightarrow> error + 'a list list" where
  "diagonalize_step_m ar n k A =
     (let i_max = findPivot_m ar A k
      in if m_is_zero ar (A ! i_max ! k) then Inl SingularMatrix
         else Inr (eliminate_m ar k n (swap_m A k i_max)))"

definition diagonalize_m :: "'a arith \<Rightarrow> 'a list list \<Rightarrow> error + 'a list list" where
  "diagonalize_m ar A =
     (let m = length A; n = length (A ! 0); min_m_n = min m n
      in fold (\<lambda>k r. case r of Inl err \<Rightarrow> Inl err | Inr A' \<Rightarrow> diagonalize_step_m ar n k A')
           [0..<min_m_n] (Inr A))"

definition makeM_m :: "'a list list \<Rightarrow> 'a list list \<Rightarrow> error + 'a list list" where
  "makeM_m A b =
     (let n = length A
      in if n \<noteq> length (A ! 0) \<or> n \<noteq> length b then Inl IncompatibleAugmentation
         else Inr (map (\<lambda>i. A ! i @ [b ! i ! 0]) [0..<n]))"

text \<open>\<^verbatim>\<open>x = M[i][m] / M[i][i]\<close>, the rows above get \<^verbatim>\<open>M[j][m] -= x * M[j][i]\<close> and
  \<^verbatim>\<open>M[j][i] = 0\<close>, then \<^verbatim>\<open>M[i][m] = x\<close> and \<^verbatim>\<open>M[i][i] = 1\<close>.\<close>

definition substitute_row_m :: "'a arith \<Rightarrow> nat \<Rightarrow> nat \<Rightarrow> 'a \<Rightarrow> 'a list \<Rightarrow> 'a list" where
  "substitute_row_m ar m i x Mj =
     (Mj[m := m_sub ar (Mj ! m) (m_mul ar x (Mj ! i))])[i := m_zero ar]"

definition substitute_step_m :: "'a arith \<Rightarrow> nat \<Rightarrow> nat \<Rightarrow> 'a list list \<Rightarrow> 'a list list" where
  "substitute_step_m ar m i M =
     (let x = m_div ar (M ! i ! m) (M ! i ! i);
          M' = fold (\<lambda>j M. M[j := substitute_row_m ar m i x (M ! j)]) (rev [0..<i]) M
      in M'[i := ((M' ! i)[m := x])[i := m_one ar]])"

definition substitute_m :: "'a arith \<Rightarrow> 'a list list \<Rightarrow> 'a list list" where
  "substitute_m ar M = (let m = length M in fold (substitute_step_m ar m) (rev [0..<m]) M)"

definition extractX_m :: "'a list list \<Rightarrow> 'a list" where
  "extractX_m M = (let m = length M; n = length (M ! 0) in map (\<lambda>i. M ! i ! (n - 1)) [0..<m])"

definition copy_m :: "'a list list \<Rightarrow> 'a list list" where
  "copy_m M =
     (let m = length M; n = length (M ! 0) in map (\<lambda>i. map (\<lambda>j. M ! i ! j) [0..<n]) [0..<m])"

definition gaussian_elimination_calc_m ::
  "'a arith \<Rightarrow> 'a list list \<Rightarrow> 'a list list \<Rightarrow> error + 'a list" where
  "gaussian_elimination_calc_m ar A B =
     (let newA = copy_m A; newB = copy_m B
      in if length A \<noteq> length (A ! 0) \<or> length A \<noteq> length B then Inl IncompatibleGaussian
         else case makeM_m newA newB of
                Inl err \<Rightarrow> Inl err
              | Inr M \<Rightarrow>
                 (case diagonalize_m ar M of
                    Inl err \<Rightarrow> Inl err
                  | Inr D \<Rightarrow> Inr (extractX_m (substitute_m ar D))))"

definition solve_m :: "'a arith \<Rightarrow> 'a list list \<Rightarrow> 'a list list \<Rightarrow> error + 'a list" where
  "solve_m ar A B =
     (case transpose_m A of
        Inl err \<Rightarrow> Inl err
      | Inr AT \<Rightarrow>
         (case multiply_m ar AT A of
            Inl err \<Rightarrow> Inl err
          | Inr ATA \<Rightarrow>
             (case multiply_m ar AT B of
                Inl err \<Rightarrow> Inl err
              | Inr ATB \<Rightarrow> gaussian_elimination_calc_m ar ATA ATB)))"

subsection \<open>The simplifier and the computation\<close>

text \<open>\<^verbatim>\<open>abstract[elm] = count * abs[elm]\<close> and \<^verbatim>\<open>abstract[elm] += count * abs[elm]\<close>.\<close>

definition add_count_m ::
  "num arith \<Rightarrow> num \<Rightarrow> jsstring \<times> num \<Rightarrow> abstract_token \<Rightarrow> abstract_token" where
  "add_count_m ar count kv abstract =
     (if fst kv = k_CHARGE then abstract
      else case get_prop abstract (fst kv) of
             None \<Rightarrow> set_prop (fst kv) (m_mul ar count (snd kv)) abstract
           | Some old \<Rightarrow> set_prop (fst kv) (m_add ar old (m_mul ar count (snd kv))) abstract)"

definition merge_abs_m ::
  "num arith \<Rightarrow> num \<Rightarrow> abstract_token option \<Rightarrow> abstract_token \<Rightarrow> abstract_token" where
  "merge_abs_m ar count child abstract =
     (case child of None \<Rightarrow> abstract | Some a \<Rightarrow> fold (add_count_m ar count) (entries a) abstract)"

fun simplifyCompound_m :: "num arith \<Rightarrow> match \<Rightarrow> bool \<Rightarrow> abstract_token option" where
  "simplifyCompound_m ar (Match s y e b c ch f) branch =
     (case e of
        Some element \<Rightarrow>
          Some (set_prop k_CHARGE (or_else ch 0) (set_prop element (or_else c 1) init_abstract))
      | None \<Rightarrow>
         (case b of
            Some br \<Rightarrow>
              (let abstract0 = init_abstract\<lparr>dflt :=
                     (case c of Some v \<Rightarrow> if \<not> branch \<and> truthy v then Some v else None
                      | None \<Rightarrow> None)\<rparr>;
                   count = (if branch then or_else c 1 else 1);
                   abstract1 = set_prop k_CHARGE (or_else ch 0) abstract0
               in case br of
                    Raw text \<Rightarrow> Some abstract1
                  | Body items \<Rightarrow>
                      Some (fold (\<lambda>item abstract.
                                    merge_abs_m ar count (simplifyCompound_m ar item True) abstract)
                              items abstract1))
          | None \<Rightarrow>
             (case f of
                Some free \<Rightarrow> Some (set_prop k_CHARGE free init_abstract)
              | None \<Rightarrow> None)))"

text \<open>\<^verbatim>\<open>Math.round(c * 1e4) / 1e4\<close>: the product and the quotient are the machine's;
  \<^verbatim>\<open>Math.round\<close> gives the integer nearest to its argument, the greater one in a tie, and
  is exact.\<close>

definition round4_m :: "num arith \<Rightarrow> num \<Rightarrow> num" where
  "round4_m ar c = m_div ar (of_int \<lfloor>m_mul ar c 10000 + 1 / 2\<rfloor>) 10000"



definition compute_m :: "num arith \<Rightarrow> match list \<Rightarrow> error + num list" where
  "compute_m ar ast =
     (case mustHaveOneYield ast of
        Some err \<Rightarrow> Inl err
      | None \<Rightarrow>
         (case indexOfYield ast of
            None \<Rightarrow> Inl MissingYield
          | Some index \<Rightarrow>
             (let mappedAST = map (\<lambda>tok. simplifyCompound_m ar tok False) ast;
                  leftTokens = compounds (take index mappedAST);
                  rightTokens = compounds (drop (index + 1) mappedAST)
              in case mustHaveTheSameElements leftTokens rightTokens of
                   Some err \<Rightarrow> Inl err
                 | None \<Rightarrow>
                    (case mustHaveLessThanTwoCoefficient leftTokens rightTokens of
                       Some err \<Rightarrow> Inl err
                     | None \<Rightarrow>
                        (case solve_m ar (fst (makeAandB leftTokens rightTokens))
                                      (snd (makeAandB leftTokens rightTokens)) of
                           Inl err \<Rightarrow> Inl err
                         | Inr x \<Rightarrow> Inr (map (round4_m ar) x))))))"

section \<open>Example equations\<close>

text \<open>The token lists that \<^verbatim>\<open>scan\<close> builds for two equations:
  \<^verbatim>\<open>[H O]\<Rightarrow>[H*2 O]\<close>, which no coefficients balance, and the same with its first
  compound pinned, \<^verbatim>\<open>2*[H O]\<Rightarrow>[H*2 O]\<close>.\<close>

definition unbalanced_ast :: "match list" where
  "unbalanced_ast =
    [Match None None None
       (Some (Body [Match None None (Some (ascii ''H'')) None None None None,
                    Match None None (Some (ascii ''O'')) None None None None])) None None None,
     Match None (Some [c_yield]) None None None None None,
     Match None None None
       (Some (Body [Match None None (Some (ascii ''H'')) None (Some 2) None None,
                    Match None None (Some (ascii ''O'')) None None None None])) None None None]"

definition pinned_unbalanced_ast :: "match list" where
  "pinned_unbalanced_ast =
    [Match None None None
       (Some (Body [Match None None (Some (ascii ''H'')) None None None None,
                    Match None None (Some (ascii ''O'')) None None None None]))
       (Some 2) None None,
     Match None (Some [c_yield]) None None None None None,
     Match None None None
       (Some (Body [Match None None (Some (ascii ''H'')) None (Some 2) None None,
                    Match None None (Some (ascii ''O'')) None None None None])) None None None]"

section \<open>Notions of the specification\<close>

text \<open>The set of element names of a list of compounds, the charge excluded.\<close>

definition element_set :: "abstract_token list \<Rightarrow> jsstring set" where
  "element_set comps = (\<Union>c\<in>set comps. set (keys c)) - {k_CHARGE}"

text \<open>A compound's count for a symbol, 0 if absent; the unit vector of a given length
  that selects a column.\<close>

definition count_for :: "abstract_token \<Rightarrow> jsstring \<Rightarrow> num" where
  "count_for c key = (case get_prop c key of None \<Rightarrow> 0 | Some v \<Rightarrow> v)"

definition unit_vector :: "nat \<Rightarrow> nat \<Rightarrow> num list" where
  "unit_vector len j = (replicate len 0)[j := 1]"





text \<open>Conservation: for every symbol (every element, and the charge), the coefficients
  times the counts of the reactant compounds sum to the same as those of the product
  compounds.\<close>

definition balanced :: "abstract_token list \<Rightarrow> abstract_token list \<Rightarrow> num list \<Rightarrow> bool" where
  "balanced left right cs \<longleftrightarrow>
     (\<forall>key. (\<Sum>j<length left. cs ! j * count_for (left ! j) key)
            = (\<Sum>j<length right. cs ! (length left + j) * count_for (right ! j) key))"

text \<open>A token that renders as text the scanner reads back: a sum sign, a yield arrow, or an
  element symbol of one or two letters with neither count nor charge. A string without
  digits.\<close>

definition plain_token :: "match \<Rightarrow> bool" where
  "plain_token t \<longleftrightarrow>
     BRACKET t = None \<and> COUNT t = None \<and> CHARGE t = None \<and> FREE_CHARGE t = None
     \<and> (case (SUM' t, YIELD t, ELEMENT t) of
          (Some s, None, None) \<Rightarrow> s = [c_plus]
        | (None, Some y, None) \<Rightarrow> y = [c_yield]
        | (None, None, Some e) \<Rightarrow>
            (case e of
               [c] \<Rightarrow> is_letter c
             | [c, d] \<Rightarrow> is_letter c \<and> is_letter d
             | _ \<Rightarrow> False)
        | _ \<Rightarrow> False)"

definition digit_free :: "jsstring \<Rightarrow> bool" where
  "digit_free xs \<longleftrightarrow> list_all (\<lambda>c. \<not> is_digit c) xs"

text \<open>What the scanner guarantees of its tokens, and the simplifier of its compounds: an
  element symbol has at most two code units, also in the tokens nested in a bracket; the
  keys of a compound are the charge and such symbols.\<close>

fun short_names :: "match \<Rightarrow> bool" where
  "short_names (Match s y e b c ch f) \<longleftrightarrow>
     (case e of None \<Rightarrow> True | Some name \<Rightarrow> length name \<le> 2)
     \<and> (case b of Some (Body items) \<Rightarrow> list_all short_names items | _ \<Rightarrow> True)"

definition good_keys :: "abstract_token \<Rightarrow> bool" where
  "good_keys a \<longleftrightarrow> list_all (\<lambda>k. k = k_CHARGE \<or> length k \<le> 2) (keys a)"

section \<open>Static properties of a pattern\<close>

text \<open>The names of the groups inside a pattern, and a lower bound on the number of
  characters a match of it consumes.\<close>

fun gnames :: "pat \<Rightarrow> gname set" where
  "gnames (Cls p) = {}"
| "gnames (Seq a b) = gnames a \<union> gnames b"
| "gnames (Alt a b) = gnames a \<union> gnames b"
| "gnames (Opt a) = gnames a"
| "gnames (Star p) = {}"
| "gnames (Group n a) = insert n (gnames a)"

fun minlen :: "pat \<Rightarrow> nat" where
  "minlen (Cls p) = 1"
| "minlen (Seq a b) = minlen a + minlen b"
| "minlen (Alt a b) = min (minlen a) (minlen b)"
| "minlen (Opt a) = 0"
| "minlen (Star p) = 0"
| "minlen (Group n a) = minlen a"

text \<open>How the captures after a match of a pattern, on an input of a given length, relate to
  the captures before it.\<close>

definition caps_step :: "pat \<Rightarrow> nat \<Rightarrow> caps \<Rightarrow> caps \<Rightarrow> bool" where
  "caps_step r len cs cs' \<longleftrightarrow>
     (\<forall>n. n \<notin> gnames r \<longrightarrow> cs' n = cs n)
     \<and> (\<forall>n. cs' n = cs n \<or> (\<exists>s. cs' n = Some s \<and> length s \<le> len))"

section \<open>Rules for running the scanner on a given string\<close>

text \<open>The simplifier runs the matcher on a literal string with these rules: each named
  part of the pattern is unfolded when the matcher reaches it, and the continuation and
  the captures are left alone until they are applied.\<close>

lemma rmatch_seqs:
  "rmatch (seqs [a]) xs cs k = rmatch a xs cs k"
  "rmatch (seqs (a # b # rs)) xs cs k =
     rmatch a xs cs (\<lambda>ys cs'. rmatch (seqs (b # rs)) ys cs' k)"
  by simp_all

lemma rmatch_Plus: "rmatch (Plus p) xs cs k = rmatch (Seq (Cls p) (Star p)) xs cs k"
  by (simp only: Plus_def)

lemmas rmatch_NumberPattern = arg_cong [where f = "\<lambda>r. rmatch r xs cs k", OF NumberPattern_def] for xs cs k
lemmas rmatch_frm_alt = arg_cong [where f = "\<lambda>r. rmatch r xs cs k", OF frm_alt_def] for xs cs k
lemmas rmatch_elm_alt = arg_cong [where f = "\<lambda>r. rmatch r xs cs k", OF elm_alt_def] for xs cs k
lemmas rmatch_regex = arg_cong [where f = "\<lambda>r. rmatch r xs cs k", OF regex_def] for xs cs k

lemma build_match_eval:
  "build_match (\<lambda>n. None) = fold (group_step (\<lambda>n. None)) group_names empty_match"
  "build_match (f(n \<mapsto> v)) = fold (group_step (f(n \<mapsto> v))) group_names empty_match"
  by (simp_all only: build_match_def)

lemma rmatch_weak_cong: "rmatch r xs cs k = rmatch r xs cs k"
  by simp

lemma star_weak_cong: "star p xs k = star p xs k"
  by simp

lemmas class_defs = is_char_def is_space_def is_digit_def is_letter_def is_sign_def is_s_def
  is_bracket_char_def is_word_def

lemmas scan_eval = scan_def scan_loop.simps exec_def ascii_def match_at_def
  rmatch_seqs rmatch_Plus rmatch_NumberPattern rmatch_frm_alt rmatch_elm_alt rmatch_regex
  build_match_eval class_defs group_names_def group_step_def empty_match_def
  next_lastIndex_def js_Number_def unsigned_val_def

lemma floor_rat_numeral_div [simp]:
  "\<lfloor>(numeral a :: rat) / numeral b\<rfloor> = numeral a div numeral b"
  "\<lfloor>- (numeral a :: rat) / numeral b\<rfloor> = - numeral a div numeral b"
  "\<lfloor>(1 :: rat) / numeral b\<rfloor> = 1 div numeral b"
  "\<lfloor>- (1 :: rat) / numeral b\<rfloor> = - 1 div numeral b"
  using floor_divide_of_int_eq [of "numeral a" "numeral b", where ?'a = rat]
    floor_divide_of_int_eq [of "- numeral a" "numeral b", where ?'a = rat]
    floor_divide_of_int_eq [of 1 "numeral b", where ?'a = rat]
    floor_divide_of_int_eq [of "- 1" "numeral b", where ?'a = rat]
  by simp_all

lemma frac_digits_numeral:
  "frac_digits (numeral k) x =
     (if x = 0 then []
      else let d = nat \<lfloor>x * 10\<rfloor>
           in (48 + d) # frac_digits (pred_numeral k) (x * 10 - of_nat d))"
  "frac_digits 1 x = (if x = 0 then [] else [48 + nat \<lfloor>x * 10\<rfloor>])"
  by (simp_all add: numeral_eq_Suc)

lemmas simplify_eval = init_abstract_def set_prop_def or_else_def truthy_def merge_abs_def
  add_count_def get_prop_def k_CHARGE_def ascii_def

lemmas validate_eval = mustHaveOneYield_def has_YIELD_def indexOfYield_def
  mustHaveTheSameElements_def element_names_def keys_def add_key_def
  mustHaveLessThanTwoCoefficient_def has_default_def truthy_def k_CHARGE_def ascii_def

lemmas build_eval = makeAandB_def elementsSet_def extractDefault_def element_at_def
  set_index_def matrix_row_def keys_def add_key_def has_default_def get_prop_def or_else_def
  truthy_def k_CHARGE_def ascii_def

lemmas solve_eval = solve_def transpose_mat_def multiply_def gaussian_elimination_calc_def
  copy_def makeM_def diagonalize_def diagonalize_step_def findPivot_def swap_rows_def
  eliminate_def eliminate_row_def substitute_def substitute_step_def substitute_row_def
  extractX_def Let_def

lemmas stringify_eval = stringify_def stringify_token_def stringifyElement_def count_of_def
  charge_of_def num2sub_def num2super_def subscript_def superscript_def js_toString_def
  stringifyOperator_def stringifyFreeCharge_def or_else_def truthy_def is_digit_def ascii_def
  update_token_def round4_def frac_digits_numeral

text \<open>\<^verbatim>\<open>compute\<close> in stages: once the validator has passed and the system is solved, the
  result is the rounded solution written back into the tokens.\<close>

lemma compute_stages:
  assumes "mustHaveOneYield ast = None"
    and "indexOfYield ast = Some index"
    and "map (\<lambda>tok. simplifyCompound tok False) ast = mappedAST"
    and "compounds (take index mappedAST) = left"
    and "compounds (drop (index + 1) mappedAST) = right"
    and "mustHaveTheSameElements left right = None"
    and "mustHaveLessThanTwoCoefficient left right = None"
    and "makeAandB left right = (A, B)"
    and "solve A B = Inr x"
  shows "compute ast =
    Inr \<lparr>coeffs = map round4 x,
         updated = map2 update_token ast (distribute 0 index mappedAST (map round4 x)),
         result = stringify (map2 update_token ast (distribute 0 index mappedAST (map round4 x)))\<rparr>"
  using assms by (simp add: compute_def Let_def)

section \<open>Worked equations\<close>

text \<open>Water, \<^verbatim>\<open>[H*2]+[O*2]\<Rightarrow>[H*2 O]\<close>: the tokens, the compounds, the system and its solution.\<close>

lemma water_scan:
  "scan (ascii ''[H*2]+[O*2]'' @ [c_yield] @ ascii ''[H*2 O]'') = Some
    [Match None None None
       (Some (Body [Match None None (Some (ascii ''H'')) None (Some 2) None None])) None None None,
     Match (Some (ascii ''+'')) None None None None None None,
     Match None None None
       (Some (Body [Match None None (Some (ascii ''O'')) None (Some 2) None None])) None None None,
     Match None (Some [c_yield]) None None None None None,
     Match None None None
       (Some (Body [Match None None (Some (ascii ''H'')) None (Some 2) None None,
                    Match None None (Some (ascii ''O'')) None None None None])) None None None]"
  by (simp add: scan_eval del: seqs.simps cong: rmatch_weak_cong star_weak_cong)

lemma water_solve:
  "solve [[0, 0, 0], [2, 0, - 2], [0, 2, - 1], [1, 0, 0]] [[0], [0], [0], [1]] = Inr [1, 1 / 2, 1]"
  by (simp add: solve_eval)

lemma water_compute:
  "compute
    [Match None None None
       (Some (Body [Match None None (Some (ascii ''H'')) None (Some 2) None None])) None None None,
     Match (Some (ascii ''+'')) None None None None None None,
     Match None None None
       (Some (Body [Match None None (Some (ascii ''O'')) None (Some 2) None None])) None None None,
     Match None (Some [c_yield]) None None None None None,
     Match None None None
       (Some (Body [Match None None (Some (ascii ''H'')) None (Some 2) None None,
                    Match None None (Some (ascii ''O'')) None None None None])) None None None]
   = Inr \<lparr>coeffs = [1, 1 / 2, 1],
          updated =
            [Match None None None
               (Some (Body [Match None None (Some (ascii ''H'')) None (Some 2) None None]))
               (Some 1) None None,
             Match (Some (ascii ''+'')) None None None None None None,
             Match None None None
               (Some (Body [Match None None (Some (ascii ''O'')) None (Some 2) None None]))
               (Some (1 / 2)) None None,
             Match None (Some [c_yield]) None None None None None,
             Match None None None
               (Some (Body [Match None None (Some (ascii ''H'')) None (Some 2) None None,
                            Match None None (Some (ascii ''O'')) None None None None]))
               (Some 1) None None],
          result = ascii ''H'' @ [8322] @ ascii '' + 0.5O'' @ [8322, 32, c_yield, 32]
                   @ ascii ''H'' @ [8322] @ ascii ''O ''\<rparr>"
  (is "compute ?ast = _")
proof -
  let ?H2 = "\<lparr>entries = [(k_CHARGE, 0), (ascii ''H'', 2)], dflt = None\<rparr>"
  let ?O2 = "\<lparr>entries = [(k_CHARGE, 0), (ascii ''O'', 2)], dflt = None\<rparr>"
  let ?H2O = "\<lparr>entries = [(k_CHARGE, 0), (ascii ''H'', 2), (ascii ''O'', 1)], dflt = None\<rparr>"
  have y: "mustHaveOneYield ?ast = None"
    by (simp add: validate_eval)
  have i: "indexOfYield ?ast = Some 3"
    by (simp add: validate_eval)
  have m: "map (\<lambda>tok. simplifyCompound tok False) ?ast = [Some ?H2, None, Some ?O2, None, Some ?H2O]"
    by (simp add: simplify_eval)
  have l: "compounds (take 3 [Some ?H2, None, Some ?O2, None, Some ?H2O]) = [?H2, ?O2]"
    by (simp add: compounds_def)
  have r: "compounds (drop (3 + 1) [Some ?H2, None, Some ?O2, None, Some ?H2O]) = [?H2O]"
    by (simp add: compounds_def)
  have e: "mustHaveTheSameElements [?H2, ?O2] [?H2O] = None"
    by (simp add: validate_eval)
  have c: "mustHaveLessThanTwoCoefficient [?H2, ?O2] [?H2O] = None"
    by (simp add: validate_eval)
  have ab: "makeAandB [?H2, ?O2] [?H2O] =
      ([[0, 0, 0], [2, 0, - 2], [0, 2, - 1], [1, 0, 0]], [[0], [0], [0], [1]])"
    by (simp add: build_eval)
  show ?thesis
    using compute_stages [OF y i m l r e c ab water_solve] by (simp add: stringify_eval)
qed

text \<open>C2, amended. On the input \<^verbatim>\<open>[H*2]+[O*2]\<Rightarrow>[H*2 O]\<close> no compound carries a default
  coefficient, so the first compound is pinned to 1: the coefficients are 1, 0.5, 1 (one
  per compound, left to right) and the rendered string is \<open>H\<^sub>2 + 0.5O\<^sub>2 \<Rightarrow> H\<^sub>2O \<close>, the digit
  2 being the subscript glyph U+2082.\<close>

theorem water_coefficients:
  "run (ascii ''[H*2]+[O*2]'' @ [c_yield] @ ascii ''[H*2 O]'') =
     Some (Inr ([1, 1 / 2, 1],
                ascii ''H'' @ [8322] @ ascii '' + 0.5O'' @ [8322, 32, c_yield, 32]
                @ ascii ''H'' @ [8322] @ ascii ''O ''))"
  unfolding run_def water_scan by (simp add: water_compute)

text \<open>C2 as stated fails: the coefficients are not 2, 1, 2 and the rendered string is not
  \<open>2H\<^sub>2 + O\<^sub>2 \<Rightarrow> 2H\<^sub>2O \<close>.\<close>

theorem water_coefficients_counterexample:
  "run (ascii ''[H*2]+[O*2]'' @ [c_yield] @ ascii ''[H*2 O]'') \<noteq>
     Some (Inr ([2, 1, 2],
                ascii ''2H'' @ [8322] @ ascii '' + O'' @ [8322, 32, c_yield, 32]
                @ ascii ''2H'' @ [8322] @ ascii ''O ''))"
  unfolding run_def water_scan by (simp add: water_compute)

section \<open>The element alternative of the pattern\<close>

lemma letter_facts:
  assumes "is_letter c"
  shows "\<not> is_space c" "\<not> is_digit c" "\<not> is_sign c" "\<not> is_char c_plus c"
    "\<not> is_char c_star c" "\<not> is_char c_caret c" "\<not> is_char c_lbracket c"
    "\<not> is_char c_rbracket c" "\<not> is_char c_dot c" "\<not> is_char c_yield c"
  using assms by (auto simp: class_defs)

lemmas scan_symbolic = scan_def scan_loop.simps exec_def match_at_def
  rmatch_seqs rmatch_Plus rmatch_NumberPattern rmatch_frm_alt rmatch_elm_alt rmatch_regex
  build_match_eval group_names_def group_step_def empty_match_def next_lastIndex_def

lemma scan_one_letter:
  "is_letter c \<Longrightarrow> scan [c] = Some [Match None None (Some [c]) None None None None]"
  by (simp add: scan_symbolic letter_facts del: seqs.simps cong: rmatch_weak_cong star_weak_cong)

lemma scan_two_letters:
  "is_letter c \<Longrightarrow> is_letter d \<Longrightarrow>
     scan [c, d] = Some [Match None None (Some [c, d]) None None None None]"
  by (simp add: scan_symbolic letter_facts del: seqs.simps cong: rmatch_weak_cong star_weak_cong)

text \<open>C5, amended. In the element alternative of the pattern the charge suffix is
  optional, like the two multipliers (the \<^verbatim>\<open>?\<close> that closes the alternative in the source
  applies to the charge group), and the symbol is one letter followed by an optional
  second letter, in either case since the pattern is case-insensitive. So a bare symbol
  without a charge suffix is produced as an Element token: for every letter, and for
  every two letters, scanning the bare symbol gives exactly one token, which carries the
  symbol as its element and neither a count nor a charge.\<close>

theorem element_charge_optional:
  assumes "is_letter c" and "is_letter d"
  shows "scan [c] = Some [Match None None (Some [c]) None None None None]
       \<and> scan [c, d] = Some [Match None None (Some [c, d]) None None None None]"
  using assms by (simp add: scan_one_letter scan_two_letters)

theorem element_charge_optional_witness:
  "is_letter 72 \<and> is_letter 101
   \<and> scan (ascii ''H'') = Some [Match None None (Some (ascii ''H'')) None None None None]
   \<and> scan (ascii ''He'') = Some [Match None None (Some (ascii ''He'')) None None None None]"
  using element_charge_optional [of 72 101] by (simp add: is_letter_def ascii_def)

text \<open>C5 as stated fails: scanning the bare symbol \<^verbatim>\<open>H\<close> produces an Element token, and
  the token has no charge.\<close>

theorem element_charge_mandatory_counterexample:
  "scan (ascii ''H'') = Some [Match None None (Some (ascii ''H'')) None None None None]
   \<and> ELEMENT (Match None None (Some (ascii ''H'')) None None None None) = Some (ascii ''H'')
   \<and> CHARGE (Match None None (Some (ascii ''H'')) None None None None) = None"
  by (simp add: scan_eval del: seqs.simps cong: rmatch_weak_cong star_weak_cong)

section \<open>Rendering is not read back\<close>

text \<open>C4 as stated fails. The formula \<^verbatim>\<open>[H*2]\<close> scans to one bracket token holding the
  element H with count 2; it renders as \<open>H\<^sub>2\<close> followed by a space; scanning that string
  gives one bare element token H without a count: the subscript is not read, the
  bracket is gone, and the compound simplified from the token has one atom of H, not
  two.\<close>

theorem round_trip_counterexample:
  "scan (ascii ''[H*2]'') =
     Some [Match None None None
             (Some (Body [Match None None (Some (ascii ''H'')) None (Some 2) None None]))
             None None None]
   \<and> stringify [Match None None None
             (Some (Body [Match None None (Some (ascii ''H'')) None (Some 2) None None]))
             None None None] = ascii ''H'' @ [8322, 32]
   \<and> scan (ascii ''H'' @ [8322, 32]) =
       Some [Match None None (Some (ascii ''H'')) None None None None]
   \<and> simplifyCompound (Match None None None
             (Some (Body [Match None None (Some (ascii ''H'')) None (Some 2) None None]))
             None None None) False
       = Some \<lparr>entries = [(k_CHARGE, 0), (ascii ''H'', 2)], dflt = None\<rparr>
   \<and> simplifyCompound (Match None None (Some (ascii ''H'')) None None None None) False
       = Some \<lparr>entries = [(k_CHARGE, 0), (ascii ''H'', 1)], dflt = None\<rparr>"
proof -
  have "scan (ascii ''[H*2]'') =
     Some [Match None None None
             (Some (Body [Match None None (Some (ascii ''H'')) None (Some 2) None None]))
             None None None]"
    by (simp add: scan_eval del: seqs.simps cong: rmatch_weak_cong star_weak_cong)
  moreover have "stringify [Match None None None
             (Some (Body [Match None None (Some (ascii ''H'')) None (Some 2) None None]))
             None None None] = ascii ''H'' @ [8322, 32]"
    by (simp add: stringify_eval)
  moreover have "scan (ascii ''H'' @ [8322, 32]) =
       Some [Match None None (Some (ascii ''H'')) None None None None]"
    by (simp add: scan_eval del: seqs.simps cong: rmatch_weak_cong star_weak_cong)
  moreover have "simplifyCompound (Match None None None
             (Some (Body [Match None None (Some (ascii ''H'')) None (Some 2) None None]))
             None None None) False
       = Some \<lparr>entries = [(k_CHARGE, 0), (ascii ''H'', 2)], dflt = None\<rparr>"
    by (simp add: simplify_eval)
  moreover have "simplifyCompound (Match None None (Some (ascii ''H'')) None None None None) False
       = Some \<lparr>entries = [(k_CHARGE, 0), (ascii ''H'', 1)], dflt = None\<rparr>"
    by (simp add: simplify_eval)
  ultimately show ?thesis
    by (simp only: simp_thms)
qed

section \<open>Every match is a run of the pattern\<close>

text \<open>
  A successful match hands some rest of the input and some captures to its continuation.
  The rest is no longer than the input and shorter by at least \<open>minlen\<close>; the captures
  differ from the earlier ones only at groups of the pattern, and a capture made by the
  pattern is no longer than the input the pattern started on.
\<close>

lemma star_run:
  "star p xs k = Some res \<Longrightarrow> \<exists>ys. k ys = Some res \<and> length ys \<le> length xs"
proof (induction xs)
  case Nil
  then show ?case by auto
next
  case (Cons c xs)
  show ?case
  proof (cases "p c \<and> star p xs k \<noteq> None")
    case True
    then obtain r where r: "star p xs k = Some r" by auto
    with True Cons.prems have "star p xs k = Some res" by simp
    from Cons.IH [OF this] show ?thesis by auto
  next
    case False
    with Cons.prems have "k (c # xs) = Some res" by (auto split: if_splits option.splits)
    then show ?thesis by auto
  qed
qed

lemma caps_step_refl: "caps_step r len cs cs"
  by (simp add: caps_step_def)

lemma caps_step_trans:
  assumes "caps_step a len cs cs1" and "caps_step b len1 cs1 cs2" and "len1 \<le> len"
    and "gnames a \<subseteq> G" and "gnames b \<subseteq> G" and "gnames r = G"
  shows "caps_step r len cs cs2"
  unfolding caps_step_def
proof (intro conjI allI impI)
  fix n assume "n \<notin> gnames r"
  with assms show "cs2 n = cs n"
    unfolding caps_step_def by (metis subsetD)
next
  fix n
  from assms(1,2) have "cs1 n = cs n \<or> (\<exists>s. cs1 n = Some s \<and> length s \<le> len)"
    and "cs2 n = cs1 n \<or> (\<exists>s. cs2 n = Some s \<and> length s \<le> len1)"
    unfolding caps_step_def by blast+
  with assms(3) show "cs2 n = cs n \<or> (\<exists>s. cs2 n = Some s \<and> length s \<le> len)"
    by (metis order_trans)
qed

lemma rmatch_run:
  "rmatch r xs cs k = Some res \<Longrightarrow>
     \<exists>ys cs'. k ys cs' = Some res \<and> length ys + minlen r \<le> length xs
              \<and> caps_step r (length xs) cs cs'"
proof (induction r arbitrary: xs cs k)
  case (Cls p)
  then obtain c ys where "xs = c # ys" "k ys cs = Some res"
    by (auto split: list.splits if_splits)
  then show ?case
    by (intro exI [of _ ys] exI [of _ cs]) (simp add: caps_step_refl)
next
  case (Seq a b)
  from Seq.prems have "rmatch a xs cs (\<lambda>ys cs'. rmatch b ys cs' k) = Some res" by simp
  from Seq.IH(1) [OF this] obtain ys1 cs1 where
    1: "rmatch b ys1 cs1 k = Some res" "length ys1 + minlen a \<le> length xs"
       "caps_step a (length xs) cs cs1" by blast
  from Seq.IH(2) [OF 1(1)] obtain ys2 cs2 where
    2: "k ys2 cs2 = Some res" "length ys2 + minlen b \<le> length ys1"
       "caps_step b (length ys1) cs1 cs2" by blast
  have "caps_step (Seq a b) (length xs) cs cs2"
    using caps_step_trans [OF 1(3) 2(3), of "gnames (Seq a b)" "Seq a b"] 1(2) by simp
  with 1 2 show ?case
    by (intro exI [of _ ys2] exI [of _ cs2]) simp
next
  case (Alt a b)
  show ?case
  proof (cases "rmatch a xs cs k")
    case None
    with Alt.prems have "rmatch b xs cs k = Some res" by simp
    from Alt.IH(2) [OF this] obtain ys cs' where
      "k ys cs' = Some res" "length ys + minlen b \<le> length xs" "caps_step b (length xs) cs cs'"
      by blast
    then show ?thesis
      by (intro exI [of _ ys] exI [of _ cs']) (auto simp: caps_step_def)
  next
    case (Some r)
    with Alt.prems have "rmatch a xs cs k = Some res" by simp
    from Alt.IH(1) [OF this] obtain ys cs' where
      "k ys cs' = Some res" "length ys + minlen a \<le> length xs" "caps_step a (length xs) cs cs'"
      by blast
    then show ?thesis
      by (intro exI [of _ ys] exI [of _ cs']) (auto simp: caps_step_def)
  qed
next
  case (Opt a)
  let ?k = "\<lambda>ys cs'. if ys = xs then None else k ys cs'"
  show ?case
  proof (cases "rmatch a xs cs ?k")
    case None
    with Opt.prems have "k xs cs = Some res" by simp
    then show ?thesis
      by (intro exI [of _ xs] exI [of _ cs]) (simp add: caps_step_refl)
  next
    case (Some r)
    with Opt.prems have "rmatch a xs cs ?k = Some res" by simp
    from Opt.IH [OF this] obtain ys cs' where
      "?k ys cs' = Some res" "length ys + minlen a \<le> length xs" "caps_step a (length xs) cs cs'"
      by blast
    then show ?thesis
      by (intro exI [of _ ys] exI [of _ cs']) (auto simp: caps_step_def split: if_splits)
  qed
next
  case (Star p)
  from Star.prems have "star p xs (\<lambda>ys. k ys cs) = Some res" by simp
  from star_run [OF this] obtain ys where "k ys cs = Some res" "length ys \<le> length xs"
    by blast
  then show ?case
    by (intro exI [of _ ys] exI [of _ cs]) (simp add: caps_step_refl)
next
  case (Group n a)
  let ?k = "\<lambda>ys cs'. k ys (cs'(n \<mapsto> take (length xs - length ys) xs))"
  from Group.prems have "rmatch a xs cs ?k = Some res" by simp
  from Group.IH [OF this] obtain ys cs' where
    *: "?k ys cs' = Some res" "length ys + minlen a \<le> length xs" "caps_step a (length xs) cs cs'"
    by blast
  have "caps_step (Group n a) (length xs) cs (cs'(n \<mapsto> take (length xs - length ys) xs))"
    using *(3) by (auto simp: caps_step_def)
  moreover have "length ys + minlen (Group n a) \<le> length xs"
    using *(2) by simp
  ultimately show ?case
    using *(1) by blast
qed

lemma alt_cases:
  "rmatch (Alt a b) xs cs k = Some res \<Longrightarrow>
     rmatch a xs cs k = Some res \<or> rmatch b xs cs k = Some res"
  by (auto split: option.splits)

lemma final_run:
  assumes "rmatch r xs (\<lambda>n. None) (\<lambda>ys cs. Some (ys, cs)) = Some (ys, cs)"
  shows "length ys + minlen r \<le> length xs" and "\<And>n. n \<notin> gnames r \<Longrightarrow> cs n = None"
  using rmatch_run [OF assms] by (auto simp: caps_step_def)

lemma minlen_NumberPattern: "minlen NumberPattern = 1"
  by (simp add: NumberPattern_def Plus_def)

lemma minlen_frm_alt: "minlen frm_alt = 2"
  by (simp add: frm_alt_def minlen_NumberPattern)

lemma minlen_elm_alt: "minlen elm_alt = 1"
  by (simp add: elm_alt_def minlen_NumberPattern)

lemma minlen_regex: "minlen regex = 1"
  by (simp add: regex_def minlen_NumberPattern minlen_frm_alt minlen_elm_alt)

lemma gnames_NumberPattern: "gnames NumberPattern = {}"
  by (simp add: NumberPattern_def Plus_def)

lemma gnames_frm_alt: "gnames frm_alt = {G_FRM_MULT_A, G_BRACKET, G_FRM_MULT_B, G_FRM_CHARGE}"
  by (auto simp: frm_alt_def gnames_NumberPattern)

lemma gnames_elm_alt: "gnames elm_alt = {G_ELM_MULT_A, G_ELEMENT, G_ELM_MULT_B, G_ELM_CHARGE}"
  by (auto simp: elm_alt_def gnames_NumberPattern)

text \<open>The pattern never matches the empty string.\<close>

lemma match_at_shorter:
  assumes "match_at xs = Some (ys, cs)"
  shows "length ys < length xs"
  using final_run(1) [OF assms [unfolded match_at_def]] by (simp add: minlen_regex)

text \<open>A match takes part in one alternative: with a bracket group there is no element
  and no free charge, and the bracket text is shorter than the input.\<close>

lemma frm_alt_bracket:
  assumes "rmatch frm_alt xs (\<lambda>n. None) (\<lambda>ys cs. Some (ys, cs)) = Some (ys, cs)"
    and "cs G_BRACKET = Some b"
  shows "length b < length xs"
proof -
  let ?optA = "Opt (seqs [Star is_space, Group G_FRM_MULT_A NumberPattern, Star is_space,
                Cls (is_char c_star), Star is_space])"
  let ?rest = "seqs [Group G_BRACKET (Star is_bracket_char),
     Cls (is_char c_rbracket),
     Opt (seqs [Star is_space, Cls (is_char c_star), Star is_space, Opt (Cls (is_char c_plus)),
                Star is_space, Group G_FRM_MULT_B NumberPattern, Star is_s]),
     Opt (seqs [Star is_space, Cls (is_char c_caret), Star is_space,
                Group G_FRM_CHARGE NumberPattern, Star is_space])]"
  let ?k0 = "\<lambda>ys cs. Some (ys, cs)"
  have "rmatch ?optA xs (\<lambda>n. None)
          (\<lambda>ys cs'. rmatch (Seq (Cls (is_char c_lbracket)) ?rest) ys cs' ?k0) = Some (ys, cs)"
    using assms(1) by (simp add: frm_alt_def)
  from rmatch_run [OF this] obtain ys1 cs1 where
    1: "rmatch (Seq (Cls (is_char c_lbracket)) ?rest) ys1 cs1 ?k0 = Some (ys, cs)"
       "length ys1 \<le> length xs" "caps_step ?optA (length xs) (\<lambda>n. None) cs1"
    by auto
  have none: "cs1 G_BRACKET = None"
    using 1(3) by (simp add: caps_step_def gnames_NumberPattern)
  from 1(1) obtain c ys2 where 2: "ys1 = c # ys2" "rmatch ?rest ys2 cs1 ?k0 = Some (ys, cs)"
    by (auto split: list.splits if_splits)
  from rmatch_run [OF 2(2)] have "caps_step ?rest (length ys2) cs1 cs"
    by auto
  then have "cs G_BRACKET = cs1 G_BRACKET \<or> (\<exists>s. cs G_BRACKET = Some s \<and> length s \<le> length ys2)"
    unfolding caps_step_def by blast
  with none assms(2) have "length b \<le> length ys2"
    by auto
  with 1(2) 2(1) show ?thesis
    by simp
qed

lemma match_at_bracket:
  assumes "match_at xs = Some (ys, cs)" and "cs G_BRACKET = Some b"
  shows "length b < length xs" and "cs G_ELEMENT = None"
proof -
  let ?k0 = "\<lambda>ys cs. Some (ys, cs)" and ?c0 = "\<lambda>n. None :: jsstring option"
  from assms(1) consider
      "rmatch (Group G_SUM (Cls (is_char c_plus))) xs ?c0 ?k0 = Some (ys, cs)"
    | "rmatch frm_alt xs ?c0 ?k0 = Some (ys, cs)"
    | "rmatch elm_alt xs ?c0 ?k0 = Some (ys, cs)"
    | "rmatch (Group G_FREE_CHARGE NumberPattern) xs ?c0 ?k0 = Some (ys, cs)"
    | "rmatch (Group G_YIELD (Cls (is_char c_yield))) xs ?c0 ?k0 = Some (ys, cs)"
    unfolding match_at_def regex_def by (blast dest: alt_cases)
  then have frm: "rmatch frm_alt xs ?c0 ?k0 = Some (ys, cs)"
  proof cases
    case 2
    then show ?thesis .
  next
    case 1
    from final_run(2) [OF this, of G_BRACKET] assms(2) show ?thesis by simp
  next
    case 3
    from final_run(2) [OF this, of G_BRACKET] assms(2) show ?thesis
      by (simp add: gnames_elm_alt)
  next
    case 4
    from final_run(2) [OF this, of G_BRACKET] assms(2) show ?thesis
      by (simp add: gnames_NumberPattern)
  next
    case 5
    from final_run(2) [OF this, of G_BRACKET] assms(2) show ?thesis by simp
  qed
  from frm_alt_bracket [OF frm assms(2)] show "length b < length xs" .
  from final_run(2) [OF frm, of G_ELEMENT] show "cs G_ELEMENT = None"
    by (simp add: gnames_frm_alt)
qed

lemma search_facts:
  "search xs j = Some (index, e, groups) \<Longrightarrow>
     j \<le> index \<and> index < e \<and> e \<le> j + length xs
     \<and> (\<exists>zs ys. match_at zs = Some (ys, groups) \<and> length zs \<le> length xs)"
proof (induction xs arbitrary: j)
  case Nil
  then show ?case
    by (auto split: option.splits dest: match_at_shorter)
next
  case (Cons c xs)
  show ?case
  proof (cases "match_at (c # xs)")
    case None
    with Cons.prems have "search xs (Suc j) = Some (index, e, groups)" by simp
    from Cons.IH [OF this] show ?thesis by auto
  next
    case (Some r)
    obtain ys cs where r: "r = (ys, cs)" by (cases r)
    from match_at_shorter Some r have "length ys < length (c # xs)" by blast
    moreover from Cons.prems Some r
    have "index = j" "e = j + (length (c # xs) - length ys)" "groups = cs" by auto
    ultimately show ?thesis
      using Some r by (intro conjI exI [of _ "c # xs"] exI [of _ ys]) auto
  qed
qed

lemma exec_facts:
  assumes "exec str i = Some (index, e, groups)"
  shows "i \<le> index" and "index < e" and "e \<le> length str"
    and "\<And>b. groups G_BRACKET = Some b \<Longrightarrow> length b < length str \<and> groups G_ELEMENT = None"
proof -
  from assms have le: "i \<le> length str" and s: "search (drop i str) i = Some (index, e, groups)"
    by (auto simp: exec_def split: if_splits)
  from search_facts [OF s] obtain zs ys where
    *: "i \<le> index" "index < e" "e \<le> i + length (drop i str)"
       "match_at zs = Some (ys, groups)" "length zs \<le> length (drop i str)"
    by blast
  show "i \<le> index" "index < e" by fact+
  from *(3) le show "e \<le> length str" by simp
  fix b assume "groups G_BRACKET = Some b"
  from match_at_bracket [OF *(4) this] *(5)
  show "length b < length str \<and> groups G_ELEMENT = None" by simp
qed

section \<open>The token built from a match\<close>

lemma BRACKET_group_step:
  "BRACKET (group_step groups n m) =
     (if n = G_BRACKET
      then (case groups n of
              None \<Rightarrow> BRACKET m
            | Some v \<Rightarrow> if v = [] then BRACKET m else assign_str (BRACKET m) (Raw v))
      else BRACKET m)"
  by (cases m; cases n) (simp_all add: group_step_def split: option.splits)

lemma ELEMENT_group_step:
  "ELEMENT (group_step groups n m) =
     (if n = G_ELEMENT
      then (case groups n of
              None \<Rightarrow> ELEMENT m
            | Some v \<Rightarrow> if v = [] then ELEMENT m else assign_str (ELEMENT m) v)
      else ELEMENT m)"
  by (cases m; cases n) (simp_all add: group_step_def split: option.splits)

lemma BRACKET_build_match:
  "BRACKET (build_match groups) =
     (case groups G_BRACKET of
        None \<Rightarrow> None
      | Some v \<Rightarrow> if v = [] then None else Some (Raw v))"
  by (simp add: build_match_def group_names_def BRACKET_group_step empty_match_def
      split: option.splits)

lemma ELEMENT_build_match:
  "ELEMENT (build_match groups) =
     (case groups G_ELEMENT of
        None \<Rightarrow> None
      | Some v \<Rightarrow> if v = [] then None else Some v)"
  by (simp add: build_match_def group_names_def ELEMENT_group_step empty_match_def
      split: option.splits)

section \<open>The scanning loop returns\<close>

lemma next_lastIndex_exec:
  assumes "exec str i = Some (index, e, groups)"
  shows "next_lastIndex index e = e" and "i < next_lastIndex index e"
  using exec_facts(1,2) [OF assms] by (simp_all add: next_lastIndex_def)

lemma scan_loop_total: "\<exists>ast. scan_loop str i = Some ast"
proof (induction "length str" arbitrary: str i rule: less_induct)
  case less
  show ?case
  proof (induction "Suc (length str) - i" arbitrary: i rule: less_induct)
    case inner: less
    show ?case
    proof (cases "exec str i")
      case None
      then show ?thesis
        by (subst scan_loop.simps) simp
    next
      case (Some r)
      obtain index e groups where r: "r = (index, e, groups)"
        by (cases r)
      note ex = Some [unfolded r]
      have "Suc (length str) - next_lastIndex index e < Suc (length str) - i"
        using next_lastIndex_exec [OF ex] exec_facts(1,2,3) [OF ex] by simp
      from inner.hyps [OF this] obtain matches where
        rest: "scan_loop str (next_lastIndex index e) = Some matches"
        by blast
      have "\<exists>m. (case BRACKET (build_match groups) of
               Some (Raw b) \<Rightarrow>
                 if length b > 2
                 then Option.bind (scan_loop b 0)
                        (\<lambda>body. Some (set_BRACKET (Some (Body body)) (build_match groups)))
                 else Some (build_match groups)
             | _ \<Rightarrow> Some (build_match groups)) = Some m"
      proof (cases "BRACKET (build_match groups)")
        case None
        then show ?thesis by simp
      next
        case (Some br)
        show ?thesis
        proof (cases br)
          case (Body items)
          with Some show ?thesis by simp
        next
          case (Raw b)
          with Some have "groups G_BRACKET = Some b"
            by (auto simp: BRACKET_build_match split: option.splits if_splits)
          from exec_facts(4) [OF ex this] have "length b < length str"
            by simp
          from less.hyps [OF this] obtain body where "scan_loop b 0 = Some body"
            by blast
          with Some Raw show ?thesis by simp
        qed
      qed
      then obtain m where "(case BRACKET (build_match groups) of
               Some (Raw b) \<Rightarrow>
                 if length b > 2
                 then Option.bind (scan_loop b 0)
                        (\<lambda>body. Some (set_BRACKET (Some (Body body)) (build_match groups)))
                 else Some (build_match groups)
             | _ \<Rightarrow> Some (build_match groups)) = Some m"
        by blast
      with ex rest show ?thesis
        by (subst scan_loop.simps) simp
    qed
  qed
qed

text \<open>C9. \<^verbatim>\<open>scan\<close> is total: on every input string the scanning loop, including the scans
  of bracket texts nested in it, terminates and returns a list of tokens; no step can
  raise an error. Every iteration makes forward progress: a match found by a search
  from \<^verbatim>\<open>lastIndex\<close> starts at or after \<^verbatim>\<open>lastIndex\<close>, lies inside the string and has
  positive width, because every alternative of the pattern consumes a character, so the
  next \<^verbatim>\<open>lastIndex\<close> is the end of the match and is greater than the old one (the guard
  for matches of width zero would also advance it).\<close>

theorem scan_total:
  "(\<exists>ast. scan str = Some ast)
   \<and> (\<forall>i index e groups. exec str i = Some (index, e, groups) \<longrightarrow>
         i \<le> index \<and> index < e \<and> e \<le> length str
         \<and> next_lastIndex index e = e \<and> i < next_lastIndex index e)
   \<and> (\<forall>index. index < next_lastIndex index index)"
  using scan_loop_total [of str 0] exec_facts(1,2,3) next_lastIndex_exec
  by (auto simp: scan_def next_lastIndex_def)

theorem scan_total_witness:
  "exec (ascii ''[H]+'') 0 = Some (0, 3, [G_BRACKET \<mapsto> ascii ''H''])
   \<and> (\<exists>ast. scan (ascii ''[H]+'') = Some ast)
   \<and> (0::nat) \<le> 0 \<and> (0::nat) < 3 \<and> 3 \<le> length (ascii ''[H]+'')
   \<and> next_lastIndex 0 3 = 3 \<and> 0 < next_lastIndex 0 3"
proof -
  have ex: "exec (ascii ''[H]+'') 0 = Some (0, 3, [G_BRACKET \<mapsto> ascii ''H''])"
    by (simp add: scan_eval del: seqs.simps cong: rmatch_weak_cong star_weak_cong)
  from scan_total [of "ascii ''[H]+''"] ex show ?thesis
    by blast
qed

section \<open>Short bracket texts\<close>

text \<open>C10, amended. For every bracket group whose raw inner text has length 1 or 2 (such
  as \<^verbatim>\<open>[H]\<close> or \<^verbatim>\<open>[He]\<close>), the token that the scanning loop builds from the match keeps
  the raw text as its \<^verbatim>\<open>BRACKET\<close> rather than a list of tokens, and simplifying that token
  gives a compound whose only key is the charge, with the token's charge (0 if absent)
  as its value, and, at top level, the token's non-zero count as default coefficient. So
  the compound has no element name for the validator and no atom count for the linear
  system.\<close>

theorem short_bracket_raw:
  assumes "exec str i = Some (index, e, groups)"
    and "groups G_BRACKET = Some b"
    and "1 \<le> length b" and "length b \<le> 2"
  shows "(\<exists>rest. scan_loop str i = Some (build_match groups # rest))
    \<and> BRACKET (build_match groups) = Some (Raw b)
    \<and> simplifyCompound (build_match groups) branch =
        Some \<lparr>entries = [(k_CHARGE, or_else (CHARGE (build_match groups)) 0)],
              dflt = (case COUNT (build_match groups) of
                        None \<Rightarrow> None
                      | Some v \<Rightarrow> if \<not> branch \<and> truthy v then Some v else None)\<rparr>
    \<and> (\<forall>a. simplifyCompound (build_match groups) branch = Some a \<longrightarrow>
           keys a = [k_CHARGE] \<and> element_names [a] = [])"
proof -
  obtain s y el br c ch f where m: "build_match groups = Match s y el br c ch f"
    by (cases "build_match groups")
  from assms(3) have "b \<noteq> []"
    by auto
  with assms(2) have br: "BRACKET (build_match groups) = Some (Raw b)"
    by (simp add: BRACKET_build_match)
  from exec_facts(4) [OF assms(1,2)] have el: "ELEMENT (build_match groups) = None"
    by (simp add: ELEMENT_build_match)
  obtain rest where "scan_loop str (next_lastIndex index e) = Some rest"
    using scan_loop_total by blast
  with assms(1,4) br have "scan_loop str i = Some (build_match groups # rest)"
    by (subst scan_loop.simps) simp
  moreover have "simplifyCompound (build_match groups) branch =
        Some \<lparr>entries = [(k_CHARGE, or_else (CHARGE (build_match groups)) 0)],
              dflt = (case COUNT (build_match groups) of
                        None \<Rightarrow> None
                      | Some v \<Rightarrow> if \<not> branch \<and> truthy v then Some v else None)\<rparr>"
    using br el unfolding m by (simp add: init_abstract_def set_prop_def)
  ultimately show ?thesis
    using br by (auto simp: keys_def element_names_def)
qed

theorem short_bracket_raw_witness:
  "exec (ascii ''2*[He]^-1'') 0 =
     Some (0, 9, [G_FRM_MULT_A \<mapsto> ascii ''2'', G_BRACKET \<mapsto> ascii ''He'',
                  G_FRM_CHARGE \<mapsto> ascii ''-1''])
   \<and> scan (ascii ''2*[He]^-1'') =
       Some [Match None None None (Some (Raw (ascii ''He''))) (Some 2) (Some (- 1)) None]
   \<and> simplifyCompound
        (Match None None None (Some (Raw (ascii ''He''))) (Some 2) (Some (- 1)) None) False
       = Some \<lparr>entries = [(k_CHARGE, - 1)], dflt = Some 2\<rparr>
   \<and> element_names [\<lparr>entries = [(k_CHARGE, - 1)], dflt = Some 2\<rparr>] = []"
proof -
  let ?g = "[G_FRM_MULT_A \<mapsto> ascii ''2'', G_BRACKET \<mapsto> ascii ''He'',
             G_FRM_CHARGE \<mapsto> ascii ''-1'']"
  have ex: "exec (ascii ''2*[He]^-1'') 0 = Some (0, 9, ?g)"
    by (simp add: scan_eval del: seqs.simps cong: rmatch_weak_cong star_weak_cong)
  have b: "build_match ?g =
      Match None None None (Some (Raw (ascii ''He''))) (Some 2) (Some (- 1)) None"
    by (simp add: scan_eval)
  have sc: "scan (ascii ''2*[He]^-1'') =
       Some [Match None None None (Some (Raw (ascii ''He''))) (Some 2) (Some (- 1)) None]"
    by (simp add: scan_eval del: seqs.simps cong: rmatch_weak_cong star_weak_cong)
  from short_bracket_raw [OF ex, of "ascii ''He''" False] ex sc show ?thesis
    unfolding b by (simp add: ascii_def or_else_def truthy_def init_abstract_def set_prop_def)
qed

text \<open>C10 as stated fails at the empty bracket text, which also has length at most 2:
  the group matched the empty string and is skipped, so the token of \<^verbatim>\<open>[]^-1\<close> has no
  \<^verbatim>\<open>BRACKET\<close> at all, and it simplifies to no compound rather than to a compound that
  holds its charge.\<close>

theorem short_bracket_raw_counterexample:
  "scan (ascii ''[]^-1'') = Some [Match None None None None None (Some (- 1)) None]
   \<and> BRACKET (Match None None None None None (Some (- 1)) None) = None
   \<and> simplifyCompound (Match None None None None None (Some (- 1)) None) False = None"
  by (simp add: scan_eval del: seqs.simps cong: rmatch_weak_cong star_weak_cong)

section \<open>The validator's comparison of the two sides\<close>

lemma set_fold_add_key: "set (fold add_key ks s) = set ks \<union> set s"
  by (induction ks arbitrary: s) (auto simp: add_key_def)

lemma distinct_fold_add_key: "distinct s \<Longrightarrow> distinct (fold add_key ks s)"
  by (induction ks arbitrary: s) (auto simp: add_key_def)

lemma set_names_fold:
  "set (fold (\<lambda>comp s. fold add_key (filter (\<lambda>key. key \<noteq> k_CHARGE) (keys comp)) s) comps s0)
     = set s0 \<union> element_set comps"
  by (induction comps arbitrary: s0) (auto simp: set_fold_add_key element_set_def)

lemma distinct_names_fold:
  "distinct s0 \<Longrightarrow>
     distinct (fold (\<lambda>comp s. fold add_key (filter (\<lambda>key. key \<noteq> k_CHARGE) (keys comp)) s) comps s0)"
  by (induction comps arbitrary: s0) (auto simp: distinct_fold_add_key)

lemma set_element_names: "set (element_names comps) = element_set comps"
  by (simp add: element_names_def set_names_fold)

lemma distinct_element_names: "distinct (element_names comps)"
  by (simp add: element_names_def distinct_names_fold)

lemma delete_loop_mismatch:
  assumes "distinct ls"
  shows "(fst (delete_loop ls rs) \<or> snd (delete_loop ls rs) \<noteq> []) \<longleftrightarrow> set ls \<noteq> set rs"
  using assms
proof (induction ls arbitrary: rs)
  case Nil
  then show ?case by auto
next
  case (Cons a ls)
  show ?case
  proof (cases "a \<in> set rs")
    case False
    then show ?thesis by auto
  next
    case True
    from Cons.prems have a: "a \<notin> set ls" and d: "distinct ls" by auto
    have "set ls \<noteq> set (removeAll a rs) \<longleftrightarrow> set (a # ls) \<noteq> set rs"
      using a True by auto
    with Cons.IH [OF d, of "removeAll a rs"] True show ?thesis by simp
  qed
qed

lemma mustHaveTheSameElements_iff:
  "mustHaveTheSameElements left right = Some ElementMismatch
     \<longleftrightarrow> element_set left \<noteq> element_set right"
  "mustHaveTheSameElements left right = None \<longleftrightarrow> element_set left = element_set right"
  using delete_loop_mismatch [OF distinct_element_names, of left "element_names right"]
  by (auto simp: mustHaveTheSameElements_def set_element_names split: prod.splits)

text \<open>The other stages raise other errors.\<close>

lemma diagonalize_fold_error:
  "fold (\<lambda>k r. case r of Inl err \<Rightarrow> Inl err | Inr A' \<Rightarrow> diagonalize_step n k A') ks r = Inl err
     \<Longrightarrow> r = Inl err \<or> err = SingularMatrix"
proof (induction ks arbitrary: r)
  case Nil
  then show ?case by simp
next
  case (Cons k ks)
  from Cons.IH [OF Cons.prems [simplified]] show ?case
    by (auto simp: diagonalize_step_def Let_def split: sum.splits if_splits)
qed

lemma diagonalize_error: "diagonalize A = Inl err \<Longrightarrow> err = SingularMatrix"
  unfolding diagonalize_def Let_def by (drule diagonalize_fold_error) simp

lemma solve_error:
  "solve A B = Inl err \<Longrightarrow>
     err \<in> {NotA2DArray, IncompatibleMultiplication, IncompatibleGaussian,
            IncompatibleAugmentation, SingularMatrix}"
  by (auto simp: solve_def transpose_mat_def multiply_def gaussian_elimination_calc_def
      makeM_def Let_def split: sum.splits if_splits dest: diagonalize_error)

lemma mustHaveOneYield_index:
  "mustHaveOneYield ast = None \<Longrightarrow> \<exists>index. indexOfYield ast = Some index"
  by (auto simp: mustHaveOneYield_def indexOfYield_def split: option.splits)

text \<open>C6. \<^verbatim>\<open>compute\<close>, on a token list that has its one yield, raises the error "Elements on
  both sides must be the same" if and only if the set of element names (the charge
  excluded) of the simplified reactant-side compounds differs from the set of the
  product-side compounds; the check itself, \<^verbatim>\<open>mustHaveTheSameElements\<close>, raises the error
  exactly when the two sets differ and passes exactly when they are equal, whatever the
  atom counts are; and with this error there is no result.\<close>

theorem element_mismatch_iff:
  assumes "mustHaveOneYield ast = None"
  shows "(compute ast = Inl ElementMismatch \<longleftrightarrow>
            element_set (leftTokens ast (the (indexOfYield ast)))
            \<noteq> element_set (rightTokens ast (the (indexOfYield ast))))
       \<and> (mustHaveTheSameElements left right = Some ElementMismatch
            \<longleftrightarrow> element_set left \<noteq> element_set right)
       \<and> (mustHaveTheSameElements left right = None
            \<longleftrightarrow> element_set left = element_set right)
       \<and> (compute ast = Inl ElementMismatch \<longrightarrow> (\<forall>r. compute ast \<noteq> Inr r))"
proof -
  from mustHaveOneYield_index [OF assms] obtain index where i: "indexOfYield ast = Some index"
    by blast
  have "compute ast = Inl ElementMismatch \<longleftrightarrow>
      mustHaveTheSameElements (leftTokens ast index) (rightTokens ast index) = Some ElementMismatch"
    using assms i
    by (auto simp: compute_def Let_def leftTokens_def rightTokens_def
        mustHaveTheSameElements_def mustHaveLessThanTwoCoefficient_def
        split: option.splits sum.splits if_splits prod.splits dest: solve_error)
  then show ?thesis
    using i by (auto simp: mustHaveTheSameElements_iff)
qed

theorem element_mismatch_iff_witness:
  "mustHaveOneYield
     [Match None None (Some (ascii ''H'')) None None None None,
      Match None (Some [c_yield]) None None None None None,
      Match None None (Some (ascii ''O'')) None None None None] = None
   \<and> compute
     [Match None None (Some (ascii ''H'')) None None None None,
      Match None (Some [c_yield]) None None None None None,
      Match None None (Some (ascii ''O'')) None None None None] = Inl ElementMismatch
   \<and> mustHaveTheSameElements
        [\<lparr>entries = [(k_CHARGE, 0), (ascii ''H'', 1), (ascii ''O'', 1)], dflt = None\<rparr>]
        [\<lparr>entries = [(k_CHARGE, 0), (ascii ''H'', 2), (ascii ''O'', 1)], dflt = None\<rparr>] = None"
  (is "mustHaveOneYield ?ast = None \<and> _ \<and> mustHaveTheSameElements ?l ?r = None")
proof -
  have y: "mustHaveOneYield ?ast = None"
    by (simp add: validate_eval)
  have "element_set (leftTokens ?ast (the (indexOfYield ?ast)))
            \<noteq> element_set (rightTokens ?ast (the (indexOfYield ?ast)))"
    by (simp add: element_set_def leftTokens_def rightTokens_def compounds_def
        indexOfYield_def has_YIELD_def keys_def simplify_eval)
  moreover have "element_set ?l = element_set ?r"
    by (simp add: element_set_def keys_def)
  ultimately show ?thesis
    using element_mismatch_iff [OF y, of ?l ?r] y by simp
qed

section \<open>The shape of the linear system\<close>

lemma set_elementsSet_fold:
  "set (fold (\<lambda>token s. fold add_key (keys token) s) tokens s0)
     = set s0 \<union> (\<Union>c\<in>set tokens. set (keys c))"
  by (induction tokens arbitrary: s0) (auto simp: set_fold_add_key)

lemma distinct_elementsSet_fold:
  "distinct s0 \<Longrightarrow> distinct (fold (\<lambda>token s. fold add_key (keys token) s) tokens s0)"
  by (induction tokens arbitrary: s0) (auto simp: distinct_fold_add_key)

lemma set_elementsSet: "set (elementsSet tokens) = (\<Union>c\<in>set tokens. set (keys c))"
  by (simp add: elementsSet_def set_elementsSet_fold)

lemma distinct_elementsSet: "distinct (elementsSet tokens)"
  by (simp add: elementsSet_def distinct_elementsSet_fold)

lemma length_elementsSet: "length (elementsSet tokens) = card (\<Union>c\<in>set tokens. set (keys c))"
  using distinct_card [OF distinct_elementsSet, of tokens] by (simp add: set_elementsSet)

lemma extractDefault_snoc:
  "extractDefault (tokens @ [t]) =
     (if has_default t then (length tokens, the (dflt t)) else extractDefault tokens)"
  by (simp add: extractDefault_def enumerate_append_eq split: prod.splits)

lemma extractDefault_none:
  "\<forall>t\<in>set tokens. \<not> has_default t \<Longrightarrow> extractDefault tokens = (0, 1)"
proof (induction tokens rule: rev_induct)
  case Nil
  then show ?case by (simp add: extractDefault_def)
next
  case (snoc t tokens)
  then show ?case by (simp add: extractDefault_snoc)
qed

lemma extractDefault_last:
  assumes "p < length tokens" and "has_default (tokens ! p)"
    and "\<forall>q. p < q \<and> q < length tokens \<longrightarrow> \<not> has_default (tokens ! q)"
  shows "extractDefault tokens = (p, the (dflt (tokens ! p)))"
  using assms
proof (induction tokens rule: rev_induct)
  case Nil
  then show ?case by simp
next
  case (snoc t tokens)
  show ?case
  proof (cases "p = length tokens")
    case True
    with snoc.prems show ?thesis by (simp add: extractDefault_snoc)
  next
    case False
    with snoc.prems have p: "p < length tokens" by simp
    from snoc.prems(3) p have "\<not> has_default ((tokens @ [t]) ! length tokens)"
      by (metis length_append_singleton lessI)
    then have t: "\<not> has_default t" by simp
    have "has_default (tokens ! p)"
      using snoc.prems(2) p by (simp add: nth_append)
    moreover have "\<forall>q. p < q \<and> q < length tokens \<longrightarrow> \<not> has_default (tokens ! q)"
      using snoc.prems(3) by (metis length_append_singleton less_Suc_eq nth_append)
    ultimately have "extractDefault tokens = (p, the (dflt (tokens ! p)))"
      using snoc.IH p by blast
    with t p show ?thesis by (simp add: extractDefault_snoc nth_append)
  qed
qed

lemma extractDefault_bound:
  "tokens \<noteq> [] \<Longrightarrow> fst (extractDefault tokens) < length tokens"
proof (induction tokens rule: rev_induct)
  case Nil
  then show ?case by simp
next
  case (snoc t tokens)
  show ?case
  proof (cases "tokens = []")
    case True
    then show ?thesis by (simp add: extractDefault_snoc extractDefault_def)
  next
    case False
    with snoc.IH show ?thesis by (simp add: extractDefault_snoc less_Suc_eq)
  qed
qed

lemma length_matrix_row: "length (matrix_row left right key) = length left + length right"
  by (simp add: matrix_row_def)

lemma or_else_zero: "or_else x 0 = (case x of None \<Rightarrow> 0 | Some v \<Rightarrow> v)"
  by (simp add: or_else_def truthy_def split: option.splits)

lemma matrix_row_left:
  "j < length left \<Longrightarrow> matrix_row left right key ! j = count_for (left ! j) key"
  by (simp add: matrix_row_def nth_append or_else_zero count_for_def)

lemma matrix_row_right:
  "j < length right \<Longrightarrow>
     matrix_row left right key ! (length left + j) = - count_for (right ! j) key"
  by (simp add: matrix_row_def nth_append or_else_zero count_for_def split: option.splits)

lemma matrix_row_absent:
  assumes "\<forall>c\<in>set (left @ right). key \<notin> set (keys c)"
  shows "matrix_row left right key = replicate (length left + length right) 0"
proof (rule nth_equalityI)
  show "length (matrix_row left right key) = length (replicate (length left + length right) 0)"
    by (simp add: length_matrix_row)
next
  fix j assume "j < length (matrix_row left right key)"
  then have j: "j < length left + length right" by (simp add: length_matrix_row)
  have absent: "count_for c key = 0" if "c \<in> set (left @ right)" for c
  proof -
    from assms that have "key \<notin> fst ` set (entries c)" by (simp add: keys_def)
    then have "map_of (entries c) key = None" by (simp add: map_of_eq_None_iff)
    then show ?thesis by (simp add: count_for_def get_prop_def)
  qed
  show "matrix_row left right key ! j = replicate (length left + length right) 0 ! j"
  proof (cases "j < length left")
    case True
    then show ?thesis using j absent [of "left ! j"] by (simp add: matrix_row_left)
  next
    case False
    then obtain j' where j': "j = length left + j'" "j' < length right"
      using j by (metis add_diff_inverse_nat nat_add_left_cancel_less)
    then show ?thesis using j absent [of "right ! j'"] by (simp add: matrix_row_right)
  qed
qed

lemma replicate_update_last: "(replicate (n + 1) x)[n := y] = replicate n x @ [y]"
  by (induction n) auto

text \<open>C8, amended. For every pair of lists of simplified compounds (left, right) that are
  not both empty, and whose keys are the charge and element symbols (none is the word
  \<^verbatim>\<open>undefined\<close>): the rows of A follow the distinct keys of all compounds, so A has
  exactly (number of distinct keys, the charge included) + 1 rows, each with
  (left length + right length) columns; an entry of a key's row is the compound's count
  for that key (0 if absent), negated in the right-side columns; the final row is the unit
  vector that selects the column of the compound carrying the default coefficient (the
  last such compound; the first column when there is none); B has one entry per row, zero
  except in the final row, which holds the default coefficient (1 when there is none).\<close>

theorem makeAandB_shape:
  fixes left right :: "abstract_token list"
  defines "A \<equiv> fst (makeAandB left right)"
    and "B \<equiv> snd (makeAandB left right)"
    and "tokens \<equiv> left @ right"
    and "elements \<equiv> elementsSet (left @ right)"
  assumes "left @ right \<noteq> []"
    and "\<forall>c\<in>set (left @ right). ascii ''undefined'' \<notin> set (keys c)"
  shows "distinct elements \<and> set elements = (\<Union>c\<in>set tokens. set (keys c))
    \<and> length A = card (\<Union>c\<in>set tokens. set (keys c)) + 1
    \<and> length B = length A
    \<and> (\<forall>i < length A. length (A ! i) = length left + length right)
    \<and> (\<forall>i < length elements. \<forall>j < length left.
          A ! i ! j = count_for (left ! j) (elements ! i))
    \<and> (\<forall>i < length elements. \<forall>j < length right.
          A ! i ! (length left + j) = - count_for (right ! j) (elements ! i))
    \<and> (\<forall>i < length elements. B ! i = [0])
    \<and> ((\<forall>t\<in>set tokens. \<not> has_default t) \<longrightarrow>
          A ! length elements = unit_vector (length tokens) 0 \<and> B ! length elements = [1])
    \<and> (\<forall>p < length tokens.
          has_default (tokens ! p)
          \<and> (\<forall>q. p < q \<and> q < length tokens \<longrightarrow> \<not> has_default (tokens ! q)) \<longrightarrow>
          A ! length elements = unit_vector (length tokens) p
          \<and> B ! length elements = [the (dflt (tokens ! p))])"
proof -
  let ?n = "length elements"
  let ?ix = "fst (extractDefault tokens)" and ?co = "snd (extractDefault tokens)"
  let ?A0 = "map (\<lambda>i. matrix_row left right (element_at elements i)) [0..<?n + 1]"
  have A: "A = ?A0[?n := set_index (?A0 ! ?n) ?ix 1]"
    and B: "B = replicate ?n [0] @ [[?co]]"
    by (simp_all only: A_def B_def makeAandB_def Let_def elements_def tokens_def
        case_prod_beta fst_conv snd_conv replicate_update_last)
  have ix: "?ix < length left + length right"
    using extractDefault_bound [of tokens] assms(5) by (simp add: tokens_def)
  have last0: "?A0 ! ?n = replicate (length left + length right) 0"
    using matrix_row_absent [OF assms(6)] by (simp add: nth_append element_at_def)
  have "A ! ?n = set_index (?A0 ! ?n) ?ix 1"
    by (subst A, subst nth_list_update_eq) simp_all
  also have "\<dots> = set_index (replicate (length left + length right) 0) ?ix 1"
    by (simp only: last0)
  also have "\<dots> = unit_vector (length tokens) ?ix"
    using ix by (simp add: set_index_def unit_vector_def tokens_def)
  finally have last: "A ! ?n = unit_vector (length tokens) ?ix" .
  have row: "A ! i = matrix_row left right (elements ! i)" if "i < ?n" for i
    using that by (simp add: A nth_append element_at_def del: upt_Suc)
  have len: "length (A ! i) = length left + length right" if "i < length A" for i
  proof (cases "i < ?n")
    case True
    then show ?thesis by (simp add: row length_matrix_row)
  next
    case False
    with that have "i = ?n" by (simp add: A)
    then show ?thesis using last ix by (simp add: unit_vector_def tokens_def)
  qed
  have "length A = card (\<Union>c\<in>set tokens. set (keys c)) + 1"
    by (simp add: A elements_def tokens_def length_elementsSet)
  moreover have "length B = length A"
    by (simp add: A B)
  moreover have "\<forall>i < ?n. B ! i = [0]"
    by (simp add: B nth_append)
  moreover have "B ! ?n = [?co]"
    by (simp add: B nth_append)
  moreover have "distinct elements" "set elements = (\<Union>c\<in>set tokens. set (keys c))"
    by (simp_all add: elements_def tokens_def distinct_elementsSet set_elementsSet)
  ultimately show ?thesis
    using len last row
    by (auto simp: matrix_row_left matrix_row_right extractDefault_none extractDefault_last)
qed

theorem makeAandB_shape_witness:
  "[\<lparr>entries = [(k_CHARGE, 0), (ascii ''H'', 2)], dflt = None\<rparr>,
    \<lparr>entries = [(k_CHARGE, 0), (ascii ''O'', 2)], dflt = Some 1\<rparr>]
   @ [\<lparr>entries = [(k_CHARGE, 0), (ascii ''H'', 2), (ascii ''O'', 1)], dflt = None\<rparr>] \<noteq> []
   \<and> ascii ''undefined'' \<notin> set (keys \<lparr>entries = [(k_CHARGE, 0), (ascii ''H'', 2)], dflt = None\<rparr>)
   \<and> ascii ''undefined'' \<notin> set (keys \<lparr>entries = [(k_CHARGE, 0), (ascii ''O'', 2)], dflt = Some 1\<rparr>)
   \<and> ascii ''undefined''
       \<notin> set (keys \<lparr>entries = [(k_CHARGE, 0), (ascii ''H'', 2), (ascii ''O'', 1)], dflt = None\<rparr>)
   \<and> length (fst (makeAandB
        [\<lparr>entries = [(k_CHARGE, 0), (ascii ''H'', 2)], dflt = None\<rparr>,
         \<lparr>entries = [(k_CHARGE, 0), (ascii ''O'', 2)], dflt = Some 1\<rparr>]
        [\<lparr>entries = [(k_CHARGE, 0), (ascii ''H'', 2), (ascii ''O'', 1)], dflt = None\<rparr>])) = 3 + 1
   \<and> fst (makeAandB
        [\<lparr>entries = [(k_CHARGE, 0), (ascii ''H'', 2)], dflt = None\<rparr>,
         \<lparr>entries = [(k_CHARGE, 0), (ascii ''O'', 2)], dflt = Some 1\<rparr>]
        [\<lparr>entries = [(k_CHARGE, 0), (ascii ''H'', 2), (ascii ''O'', 1)], dflt = None\<rparr>]) ! 3
      = unit_vector 3 1"
  (is "?l @ ?r \<noteq> [] \<and> ?U1 \<and> ?U2 \<and> ?U3 \<and> _ \<and> _")
proof -
  have ne: "?l @ ?r \<noteq> []"
    by simp
  have u: ?U1 ?U2 ?U3
    by (simp_all add: keys_def k_CHARGE_def ascii_def)
  then have un: "\<forall>c\<in>set (?l @ ?r). ascii ''undefined'' \<notin> set (keys c)"
    by simp
  have el: "elementsSet (?l @ ?r) = [k_CHARGE, ascii ''H'', ascii ''O'']"
    by (simp add: elementsSet_def keys_def add_key_def k_CHARGE_def ascii_def)
  have "card (\<Union>c\<in>set (?l @ ?r). set (keys c)) = length [k_CHARGE, ascii ''H'', ascii ''O'']"
    by (simp only: el [symmetric] length_elementsSet)
  also have "\<dots> = 3"
    by simp
  finally have card: "card (\<Union>c\<in>set (?l @ ?r). set (keys c)) = 3" .
  have d: "has_default ((?l @ ?r) ! 1)
      \<and> (\<forall>q. 1 < q \<and> q < length (?l @ ?r) \<longrightarrow> \<not> has_default ((?l @ ?r) ! q))"
    by (auto simp: has_default_def truthy_def less_Suc_eq numeral_3_eq_3)
  have p: "(1::nat) < length (?l @ ?r)"
    by simp
  note th = makeAandB_shape [OF ne un, unfolded el card]
  from th have a: "length (fst (makeAandB ?l ?r)) = 3 + 1"
    by (elim conjE)
  from th have "\<forall>p < length (?l @ ?r).
          has_default ((?l @ ?r) ! p)
          \<and> (\<forall>q. p < q \<and> q < length (?l @ ?r) \<longrightarrow> \<not> has_default ((?l @ ?r) ! q)) \<longrightarrow>
          fst (makeAandB ?l ?r) ! length [k_CHARGE, ascii ''H'', ascii ''O'']
            = unit_vector (length (?l @ ?r)) p
          \<and> snd (makeAandB ?l ?r) ! length [k_CHARGE, ascii ''H'', ascii ''O'']
            = [the (dflt ((?l @ ?r) ! p))]"
    by (elim conjE)
  with p d have "fst (makeAandB ?l ?r) ! length [k_CHARGE, ascii ''H'', ascii ''O'']
            = unit_vector (length (?l @ ?r)) 1"
    by blast
  then have b: "fst (makeAandB ?l ?r) ! 3 = unit_vector 3 1"
    by (simp add: numeral_3_eq_3)
  from ne u a b show ?thesis
    by (intro conjI)
qed

text \<open>C8 as stated fails for the pair of empty lists (the equation that is only a
  yield): there is no compound, but the final row gets the entry 1 written past its end,
  so A is the single row [1] with one column, not zero columns.\<close>

theorem makeAandB_shape_counterexample:
  "makeAandB [] [] = ([[1]], [[1]])
   \<and> length (fst (makeAandB [] []) ! 0) \<noteq> length ([] :: abstract_token list) + length ([] :: abstract_token list)"
  by (simp add: build_eval)

section \<open>The solver: when it fails\<close>

lemma findPivot_fold:
  fixes M :: TwoDimMat
  shows "fold (\<lambda>i i_max. if \<bar>M ! i ! k\<bar> > \<bar>M ! i_max ! k\<bar> then i else i_max) is i0 \<in> set (i0 # is)
   \<and> (\<forall>i\<in>set (i0 # is).
         \<bar>M ! i ! k\<bar> \<le> \<bar>M ! (fold (\<lambda>i i_max. if \<bar>M ! i ! k\<bar> > \<bar>M ! i_max ! k\<bar> then i else i_max)
                                 is i0) ! k\<bar>)"
proof (induction "is" arbitrary: i0)
  case Nil
  then show ?case by simp
next
  case (Cons i "is")
  let ?j = "if \<bar>M ! i ! k\<bar> > \<bar>M ! i0 ! k\<bar> then i else i0"
  from Cons.IH [of ?j] show ?case
    by (auto split: if_splits)
qed

lemma findPivot_range: "k < length M \<Longrightarrow> k \<le> findPivot M k \<and> findPivot M k < length M"
  using findPivot_fold [of M k "[k + 1..<length M]" k] by (auto simp: findPivot_def)



subsection \<open>In the arithmetic of the machine\<close>





lemma findPivot_machine: "findPivot_m (machine rnd) M k = findPivot M k"
  by (simp add: findPivot_m_def findPivot_def machine_def)











text \<open>With exact arithmetic the definitions of this part are the ones that the worked
  equations are computed with.\<close>

lemma fold_plus_sum_list:
  fixes f :: "nat \<Rightarrow> num"
  shows "fold (\<lambda>k sum. sum + f k) ks a = a + sum_list (map f ks)"
  by (induction ks arbitrary: a) (simp_all add: add.assoc)

lemma solve_m_exact: "solve_m (machine (\<lambda>x. x)) A B = solve A B"
proof -
  let ?ar = "machine (\<lambda>x. x)"
  have t: "transpose_m A = transpose_mat A" for A :: TwoDimMat
    by (simp add: transpose_m_def transpose_mat_def)
  have m: "multiply_m ?ar A B = multiply A B" for A B
    by (simp add: multiply_m_def multiply_def machine_def fold_plus_sum_list)
  have er: "eliminate_row_m ?ar k n Ak Ai = eliminate_row k n Ak Ai" for k n Ak Ai
    by (simp add: eliminate_row_m_def eliminate_row_def machine_def)
  have e: "eliminate_m ?ar k n M = eliminate k n M" for k n M
    by (simp add: eliminate_m_def eliminate_def er)
  have sw: "swap_m M i k = swap_rows M i k" for M :: TwoDimMat and i k
    by (simp add: swap_m_def swap_rows_def)
  have ds: "diagonalize_step_m ?ar n k M = diagonalize_step n k M" for n k M
    by (simp add: diagonalize_step_m_def diagonalize_step_def Let_def e sw findPivot_machine)
      (simp add: machine_def)
  have "diagonalize_step_m ?ar n k = diagonalize_step n k" for n k
    by (intro ext) (rule ds)
  then have d: "diagonalize_m ?ar M = diagonalize M" for M
    by (simp add: diagonalize_m_def diagonalize_def)
  have sr: "substitute_row_m ?ar m i x Mj = substitute_row m i x Mj" for m i x Mj
    by (simp add: substitute_row_m_def substitute_row_def machine_def)
  have ss: "substitute_step_m ?ar m i M = substitute_step m i M" for m i M
    by (simp add: substitute_step_m_def substitute_step_def sr) (simp add: machine_def)
  have "substitute_step_m ?ar m = substitute_step m" for m
    by (intro ext) (rule ss)
  then have s: "substitute_m ?ar M = substitute M" for M
    by (simp add: substitute_m_def substitute_def)
  have x: "extractX_m M = extractX M" for M :: TwoDimMat
    by (simp add: extractX_m_def extractX_def)
  have c: "copy_m M = copy M" for M :: TwoDimMat
    by (simp add: copy_m_def copy_def)
  have mk: "makeM_m A b = makeM A b" for A b :: TwoDimMat
    by (simp add: makeM_m_def makeM_def)
  have g: "gaussian_elimination_calc_m ?ar A B = gaussian_elimination_calc A B" for A B
    by (simp add: gaussian_elimination_calc_m_def gaussian_elimination_calc_def Let_def d s x c mk
        cong: sum.case_cong)
  show ?thesis
    by (simp add: solve_m_def solve_def t m g cong: sum.case_cong)
qed

lemma simplifyCompound_m_exact:
  "simplifyCompound_m (machine (\<lambda>x. x)) m branch = simplifyCompound m branch"
proof (induction m branch rule: simplifyCompound.induct)
  case (1 s y e b c ch f branch)
  let ?ar = "machine (\<lambda>x. x)"
  have a: "add_count_m ?ar = add_count"
    by (intro ext) (simp add: add_count_m_def add_count_def machine_def split: option.splits)
  have m: "merge_abs_m ?ar = merge_abs"
    by (intro ext) (simp add: merge_abs_m_def merge_abs_def a split: option.splits)
  show ?case
  proof (cases e)
    case (Some element)
    then show ?thesis by simp
  next
    case None
    note e = this
    show ?thesis
    proof (cases b)
      case None
      with e show ?thesis by simp
    next
      case (Some br)
      show ?thesis
      proof (cases br)
        case (Raw raw)
        with e Some show ?thesis by (simp add: Let_def)
      next
        case (Body items)
        have "simplifyCompound_m ?ar item True = simplifyCompound item True"
          if "item \<in> set items" for item
          using "1.IH" [OF e Some refl refl refl Body that] .
        then have "fold (\<lambda>item abstract.
              merge_abs_m ?ar count (simplifyCompound_m ?ar item True) abstract) items a0
          = fold (\<lambda>item abstract. merge_abs count (simplifyCompound item True) abstract) items a0"
          for count a0
          by (intro fold_cong) (simp_all add: m)
        with e Some Body show ?thesis
          by (simp add: Let_def)
      qed
    qed
  qed
qed

lemma compute_m_exact:
  "compute_m (machine (\<lambda>x. x)) ast =
     (case compute ast of Inl err \<Rightarrow> Inl err | Inr r \<Rightarrow> Inr (coeffs r))"
proof -
  have "round4_m (machine (\<lambda>x. x)) = round4"
    by (intro ext) (simp add: round4_m_def round4_def machine_def)
  then show ?thesis
    by (simp add: compute_m_def compute_def Let_def simplifyCompound_m_exact solve_m_exact
        split: option.splits sum.splits)
qed



section \<open>The example equations, computed\<close>

subsection \<open>Sides, systems and coefficients\<close>

text \<open>\<^verbatim>\<open>HO\<close> against \<^verbatim>\<open>H2O\<close>: the least-squares solution is 5/6 and 1/2, returned as 0.8333 and 0.5.\<close>

lemma unbalanced_index: "indexOfYield unbalanced_ast = Some 1"
  by (simp add: validate_eval unbalanced_ast_def)

lemma unbalanced_mapped:
  "map (\<lambda>tok. simplifyCompound tok False) unbalanced_ast =
     [Some \<lparr>entries = [(k_CHARGE, 0), (ascii ''H'', 1), (ascii ''O'', 1)], dflt = None\<rparr>, None, Some \<lparr>entries = [(k_CHARGE, 0), (ascii ''H'', 2), (ascii ''O'', 1)], dflt = None\<rparr>]"
  by (simp add: simplify_eval unbalanced_ast_def)

lemma unbalanced_left:
  "leftTokens unbalanced_ast 1 = [\<lparr>entries = [(k_CHARGE, 0), (ascii ''H'', 1), (ascii ''O'', 1)], dflt = None\<rparr>]"
  unfolding leftTokens_def unbalanced_mapped by (simp add: compounds_def)

lemma unbalanced_right:
  "rightTokens unbalanced_ast 1 = [\<lparr>entries = [(k_CHARGE, 0), (ascii ''H'', 2), (ascii ''O'', 1)], dflt = None\<rparr>]"
  unfolding rightTokens_def unbalanced_mapped by (simp add: compounds_def)

lemma unbalanced_coeffs: "coefficients unbalanced_ast = Some [8333 / 10000, 1 / 2]"
proof -
  have y: "mustHaveOneYield unbalanced_ast = None"
    by (simp add: validate_eval unbalanced_ast_def)
  have l: "compounds (take 1 [Some \<lparr>entries = [(k_CHARGE, 0), (ascii ''H'', 1), (ascii ''O'', 1)], dflt = None\<rparr>, None, Some \<lparr>entries = [(k_CHARGE, 0), (ascii ''H'', 2), (ascii ''O'', 1)], dflt = None\<rparr>]) = [\<lparr>entries = [(k_CHARGE, 0), (ascii ''H'', 1), (ascii ''O'', 1)], dflt = None\<rparr>]"
    by (simp add: compounds_def)
  have r: "compounds (drop (1 + 1) [Some \<lparr>entries = [(k_CHARGE, 0), (ascii ''H'', 1), (ascii ''O'', 1)], dflt = None\<rparr>, None, Some \<lparr>entries = [(k_CHARGE, 0), (ascii ''H'', 2), (ascii ''O'', 1)], dflt = None\<rparr>]) = [\<lparr>entries = [(k_CHARGE, 0), (ascii ''H'', 2), (ascii ''O'', 1)], dflt = None\<rparr>]"
    by (simp add: compounds_def)
  have e: "mustHaveTheSameElements [\<lparr>entries = [(k_CHARGE, 0), (ascii ''H'', 1), (ascii ''O'', 1)], dflt = None\<rparr>] [\<lparr>entries = [(k_CHARGE, 0), (ascii ''H'', 2), (ascii ''O'', 1)], dflt = None\<rparr>] = None"
    by (simp add: validate_eval)
  have c: "mustHaveLessThanTwoCoefficient [\<lparr>entries = [(k_CHARGE, 0), (ascii ''H'', 1), (ascii ''O'', 1)], dflt = None\<rparr>] [\<lparr>entries = [(k_CHARGE, 0), (ascii ''H'', 2), (ascii ''O'', 1)], dflt = None\<rparr>] = None"
    by (simp add: validate_eval)
  have ab: "makeAandB [\<lparr>entries = [(k_CHARGE, 0), (ascii ''H'', 1), (ascii ''O'', 1)], dflt = None\<rparr>] [\<lparr>entries = [(k_CHARGE, 0), (ascii ''H'', 2), (ascii ''O'', 1)], dflt = None\<rparr>] =
      ([[0, 0], [1, - 2], [1, - 1], [1, 0]], [[0], [0], [0], [1]])"
    by (simp add: build_eval)
  have s: "solve [[0, 0], [1, - 2], [1, - 1], [1, 0]] [[0], [0], [0], [1]] = Inr [5 / 6, 1 / 2]"
    by (simp add: solve_eval)
  show ?thesis
    using compute_stages [OF y unbalanced_index unbalanced_mapped l r e c ab s]
    by (simp add: coefficients_def round4_def)
qed

text \<open>The same with \<^verbatim>\<open>HO\<close> pinned to 2: the least-squares solution is 5/3 and 1, returned as 1.6667 and 1.\<close>

lemma pinned_unbalanced_index: "indexOfYield pinned_unbalanced_ast = Some 1"
  by (simp add: validate_eval pinned_unbalanced_ast_def)

lemma pinned_unbalanced_mapped:
  "map (\<lambda>tok. simplifyCompound tok False) pinned_unbalanced_ast =
     [Some \<lparr>entries = [(k_CHARGE, 0), (ascii ''H'', 1), (ascii ''O'', 1)], dflt = Some 2\<rparr>, None, Some \<lparr>entries = [(k_CHARGE, 0), (ascii ''H'', 2), (ascii ''O'', 1)], dflt = None\<rparr>]"
  by (simp add: simplify_eval pinned_unbalanced_ast_def)

lemma pinned_unbalanced_left:
  "leftTokens pinned_unbalanced_ast 1 = [\<lparr>entries = [(k_CHARGE, 0), (ascii ''H'', 1), (ascii ''O'', 1)], dflt = Some 2\<rparr>]"
  unfolding leftTokens_def pinned_unbalanced_mapped by (simp add: compounds_def)

lemma pinned_unbalanced_right:
  "rightTokens pinned_unbalanced_ast 1 = [\<lparr>entries = [(k_CHARGE, 0), (ascii ''H'', 2), (ascii ''O'', 1)], dflt = None\<rparr>]"
  unfolding rightTokens_def pinned_unbalanced_mapped by (simp add: compounds_def)

lemma pinned_unbalanced_coeffs: "coefficients pinned_unbalanced_ast = Some [16667 / 10000, 1]"
proof -
  have y: "mustHaveOneYield pinned_unbalanced_ast = None"
    by (simp add: validate_eval pinned_unbalanced_ast_def)
  have l: "compounds (take 1 [Some \<lparr>entries = [(k_CHARGE, 0), (ascii ''H'', 1), (ascii ''O'', 1)], dflt = Some 2\<rparr>, None, Some \<lparr>entries = [(k_CHARGE, 0), (ascii ''H'', 2), (ascii ''O'', 1)], dflt = None\<rparr>]) = [\<lparr>entries = [(k_CHARGE, 0), (ascii ''H'', 1), (ascii ''O'', 1)], dflt = Some 2\<rparr>]"
    by (simp add: compounds_def)
  have r: "compounds (drop (1 + 1) [Some \<lparr>entries = [(k_CHARGE, 0), (ascii ''H'', 1), (ascii ''O'', 1)], dflt = Some 2\<rparr>, None, Some \<lparr>entries = [(k_CHARGE, 0), (ascii ''H'', 2), (ascii ''O'', 1)], dflt = None\<rparr>]) = [\<lparr>entries = [(k_CHARGE, 0), (ascii ''H'', 2), (ascii ''O'', 1)], dflt = None\<rparr>]"
    by (simp add: compounds_def)
  have e: "mustHaveTheSameElements [\<lparr>entries = [(k_CHARGE, 0), (ascii ''H'', 1), (ascii ''O'', 1)], dflt = Some 2\<rparr>] [\<lparr>entries = [(k_CHARGE, 0), (ascii ''H'', 2), (ascii ''O'', 1)], dflt = None\<rparr>] = None"
    by (simp add: validate_eval)
  have c: "mustHaveLessThanTwoCoefficient [\<lparr>entries = [(k_CHARGE, 0), (ascii ''H'', 1), (ascii ''O'', 1)], dflt = Some 2\<rparr>] [\<lparr>entries = [(k_CHARGE, 0), (ascii ''H'', 2), (ascii ''O'', 1)], dflt = None\<rparr>] = None"
    by (simp add: validate_eval)
  have ab: "makeAandB [\<lparr>entries = [(k_CHARGE, 0), (ascii ''H'', 1), (ascii ''O'', 1)], dflt = Some 2\<rparr>] [\<lparr>entries = [(k_CHARGE, 0), (ascii ''H'', 2), (ascii ''O'', 1)], dflt = None\<rparr>] =
      ([[0, 0], [1, - 2], [1, - 1], [1, 0]], [[0], [0], [0], [2]])"
    by (simp add: build_eval)
  have s: "solve [[0, 0], [1, - 2], [1, - 1], [1, 0]] [[0], [0], [0], [2]] = Inr [5 / 3, 1]"
    by (simp add: solve_eval)
  show ?thesis
    using compute_stages [OF y pinned_unbalanced_index pinned_unbalanced_mapped l r e c ab s]
    by (simp add: coefficients_def round4_def)
qed

lemma unbalanced_scan:
  "scan (ascii ''[H O]'' @ [c_yield] @ ascii ''[H*2 O]'') = Some unbalanced_ast"
  by (simp add: scan_eval unbalanced_ast_def del: seqs.simps cong: rmatch_weak_cong star_weak_cong)

lemma pinned_unbalanced_scan:
  "scan (ascii ''2*[H O]'' @ [c_yield] @ ascii ''[H*2 O]'') = Some pinned_unbalanced_ast"
  by (simp add: scan_eval pinned_unbalanced_ast_def del: seqs.simps
      cong: rmatch_weak_cong star_weak_cong)

section \<open>Rendering that is read back\<close>

subsection \<open>The pattern on a text without digits\<close>

lemma star_fail:
  assumes "\<And>ys. set ys \<subseteq> set xs \<Longrightarrow> k ys = None"
  shows "star p xs k = None"
  using assms
proof (induction xs)
  case Nil
  then show ?case by simp
next
  case (Cons c xs)
  have "star p xs k = None"
    by (rule Cons.IH, rule Cons.prems) auto
  moreover have "k (c # xs) = None"
    by (rule Cons.prems) simp
  ultimately show ?case
    by simp
qed

lemma rmatch_fail:
  assumes "\<And>ys cs'. set ys \<subseteq> set xs \<Longrightarrow> k ys cs' = None"
  shows "rmatch r xs cs k = None"
  using assms
proof (induction r arbitrary: xs cs k)
  case (Cls p)
  show ?case
  proof (cases xs)
    case Nil
    then show ?thesis by simp
  next
    case (Cons c ys)
    have "k ys cs = None"
      by (rule Cls.prems) (auto simp: Cons)
    then show ?thesis
      by (simp add: Cons)
  qed
next
  case (Seq a b)
  have "rmatch a xs cs (\<lambda>ys cs'. rmatch b ys cs' k) = None"
  proof (rule Seq.IH(1))
    fix ys cs' assume ys: "set ys \<subseteq> set xs"
    show "rmatch b ys cs' k = None"
      by (rule Seq.IH(2)) (use ys Seq.prems in auto)
  qed
  then show ?case by simp
next
  case (Alt a b)
  have "rmatch a xs cs k = None" "rmatch b xs cs k = None"
    by (rule Alt.IH, rule Alt.prems, assumption)+
  then show ?case by simp
next
  case (Opt a)
  have "rmatch a xs cs (\<lambda>ys cs'. if ys = xs then None else k ys cs') = None"
    by (rule Opt.IH) (simp add: Opt.prems)
  moreover have "k xs cs = None"
    by (rule Opt.prems) simp
  ultimately show ?case by simp
next
  case (Star p)
  have "star p xs (\<lambda>ys. k ys cs) = None"
    by (rule star_fail) (rule Star.prems)
  then show ?case by simp
next
  case (Group n a)
  have "rmatch a xs cs (\<lambda>ys cs'. k ys (cs'(n \<mapsto> take (length xs - length ys) xs))) = None"
    by (rule Group.IH) (rule Group.prems)
  then show ?case by simp
qed

lemma digit_free_subset: "digit_free xs \<Longrightarrow> set ys \<subseteq> set xs \<Longrightarrow> digit_free ys"
  by (auto simp: digit_free_def list_all_iff)

text \<open>What comes before a part that cannot match does not help.\<close>

lemma Seq_fail:
  assumes "digit_free xs"
    and "\<And>ys cs'. digit_free ys \<Longrightarrow> rmatch b ys cs' k = None"
  shows "rmatch (Seq a b) xs cs k = None"
proof -
  have "rmatch a xs cs (\<lambda>ys cs'. rmatch b ys cs' k) = None"
    by (rule rmatch_fail) (auto intro: assms digit_free_subset)
  then show ?thesis by simp
qed

lemma Plus_digit_fail: "digit_free xs \<Longrightarrow> rmatch (Plus is_digit) xs cs k = None"
  by (cases xs) (simp_all add: Plus_def digit_free_def)

lemma NumberPattern_fail: "digit_free xs \<Longrightarrow> rmatch NumberPattern xs cs k = None"
  unfolding NumberPattern_def seqs.simps
  by (intro Seq_fail Plus_digit_fail)

lemma Group_NumberPattern_fail:
  "digit_free xs \<Longrightarrow> rmatch (Group n NumberPattern) xs cs k = None"
  by (simp add: NumberPattern_fail)

lemma Seq_NumberPattern_fail:
  "digit_free xs \<Longrightarrow> rmatch (Seq (Group n NumberPattern) b) xs cs k = None"
  by (simp add: NumberPattern_fail)

lemma Opt_fail:
  fixes k :: "jsstring \<Rightarrow> caps \<Rightarrow> 'r option"
  assumes "\<And>k' :: jsstring \<Rightarrow> caps \<Rightarrow> 'r option. rmatch a xs cs k' = None"
  shows "rmatch (Opt a) xs cs k = k xs cs"
  by (simp add: assms)

lemma Opt_Cls:
  "rmatch (Opt (Cls p)) xs cs k =
     (case rmatch (Cls p) xs cs (\<lambda>ys cs'. if ys = xs then None else k ys cs') of
        Some r \<Rightarrow> Some r
      | None \<Rightarrow> k xs cs)"
  by simp

text \<open>Without a digit there is no multiplier and no charge: the three optional parts of
  the bracket and element alternatives are skipped.\<close>

lemma Opt_mult_A:
  assumes "digit_free xs"
  shows "rmatch (Opt (seqs [Star is_space, Group n NumberPattern, Star is_space,
                           Cls (is_char c_star), Star is_space])) xs cs k = k xs cs"
  by (rule Opt_fail, unfold seqs.simps) (intro Seq_fail Seq_NumberPattern_fail assms)

lemma Opt_mult_B:
  assumes "digit_free xs"
  shows "rmatch (Opt (seqs [Star is_space, Cls (is_char c_star), Star is_space,
                           Opt (Cls (is_char c_plus)), Star is_space,
                           Group n NumberPattern, Star p])) xs cs k = k xs cs"
  by (rule Opt_fail, unfold seqs.simps) (intro Seq_fail Seq_NumberPattern_fail assms)

lemma Opt_charge:
  assumes "digit_free xs"
  shows "rmatch (Opt (seqs [Star is_space, Cls (is_char c_caret), Star is_space,
                           Group n NumberPattern, Star is_space])) xs cs k = k xs cs"
  by (rule Opt_fail, unfold seqs.simps) (intro Seq_fail Seq_NumberPattern_fail assms)

lemmas plain_eval = match_at_def rmatch_regex rmatch_frm_alt rmatch_elm_alt rmatch_seqs
  Opt_mult_A Opt_mult_B Opt_charge Opt_Cls NumberPattern_fail

lemma digit_free_Cons: "digit_free (c # xs) \<longleftrightarrow> \<not> is_digit c \<and> digit_free xs"
  by (simp add: digit_free_def)

lemma space_facts: "\<not> is_digit 32" "\<not> is_letter 32"
  by (simp_all add: is_digit_def is_letter_def)

lemma match_at_space:
  assumes "digit_free xs"
  shows "match_at (32 # xs) = None"
proof -
  have "digit_free (32 # xs)"
    using assms by (simp add: digit_free_Cons is_digit_def)
  then show ?thesis
    by (simp add: plain_eval class_defs del: seqs.simps rmatch.simps(4) cong: rmatch_weak_cong star_weak_cong)
qed

lemma match_at_plus:
  "match_at (c_plus # xs) = Some (xs, (\<lambda>n. None)(G_SUM \<mapsto> [c_plus]))"
  by (simp add: match_at_def regex_def is_char_def)

lemma match_at_yield:
  assumes "digit_free xs"
  shows "match_at (c_yield # xs) = Some (xs, (\<lambda>n. None)(G_YIELD \<mapsto> [c_yield]))"
proof -
  have "digit_free (c_yield # xs)"
    using assms by (simp add: digit_free_Cons is_digit_def)
  then show ?thesis
    by (simp add: plain_eval class_defs del: seqs.simps rmatch.simps(4) cong: rmatch_weak_cong star_weak_cong)
qed

lemma match_at_letter:
  assumes "digit_free xs" and "is_letter c"
  shows "match_at (c # 32 # xs) = Some (32 # xs, (\<lambda>n. None)(G_ELEMENT \<mapsto> [c]))"
proof -
  have "digit_free (c # 32 # xs)" "digit_free (32 # xs)"
    using assms by (simp_all add: digit_free_Cons space_facts letter_facts)
  then show ?thesis
    using assms(2)
    by (simp add: plain_eval letter_facts space_facts del: seqs.simps rmatch.simps(4) cong: rmatch_weak_cong star_weak_cong)
qed

lemma match_at_letters:
  assumes "digit_free xs" and "is_letter c" and "is_letter d"
  shows "match_at (c # d # 32 # xs) = Some (32 # xs, (\<lambda>n. None)(G_ELEMENT \<mapsto> [c, d]))"
proof -
  have "digit_free (c # d # 32 # xs)" "digit_free (32 # xs)"
    using assms by (simp_all add: digit_free_Cons space_facts letter_facts)
  then show ?thesis
    using assms(2,3)
    by (simp add: plain_eval letter_facts space_facts del: seqs.simps rmatch.simps(4) cong: rmatch_weak_cong star_weak_cong)
qed

subsection \<open>Plain tokens and their text\<close>

lemma plain_token_cases:
  assumes "plain_token t"
  obtains (sum) "t = Match (Some [c_plus]) None None None None None None"
    | (yield) "t = Match None (Some [c_yield]) None None None None None"
    | (one) c where "is_letter c" "t = Match None None (Some [c]) None None None None"
    | (two) c d where "is_letter c" "is_letter d"
        "t = Match None None (Some [c, d]) None None None None"
  using assms by (cases t) (auto simp: plain_token_def split: option.splits list.splits)

lemma stringify_token_plain:
  "stringify_token (Match (Some s) None None None None None None) = s"
  "stringify_token (Match None (Some y) None None None None None) = y"
  "stringify_token (Match None None (Some e) None None None None) = e"
  by (simp_all add: stringify_token_def stringifyOperator_def stringifyElement_def
      count_of_def charge_of_def truthy_def)

lemma digit_free_Nil: "digit_free []"
  by (simp add: digit_free_def)

lemma glyph_facts: "\<not> is_digit c_plus" "\<not> is_digit c_yield"
  by (simp_all add: is_digit_def)

lemma stringify_Cons: "stringify (t # ts) = stringify_token t @ 32 # stringify ts"
  by (simp add: stringify_def)

lemma digit_free_stringify: "list_all plain_token ast \<Longrightarrow> digit_free (stringify ast)"
proof (induction ast)
  case Nil
  then show ?case by (simp add: stringify_def digit_free_def)
next
  case (Cons t ts)
  then have "plain_token t" and df: "digit_free (stringify ts)"
    by simp_all
  from this(1) have "digit_free (stringify_token t)"
    by (cases t rule: plain_token_cases)
      (simp_all add: stringify_token_plain digit_free_Cons digit_free_Nil glyph_facts
        letter_facts)
  with df show ?case
    by (simp add: stringify_Cons digit_free_def space_facts)
qed

lemma build_match_plain:
  "build_match ((\<lambda>n. None)(G_SUM \<mapsto> [c_plus])) = Match (Some [c_plus]) None None None None None None"
  "build_match ((\<lambda>n. None)(G_YIELD \<mapsto> [c_yield])) = Match None (Some [c_yield]) None None None None None"
  "build_match ((\<lambda>n. None)(G_ELEMENT \<mapsto> [c])) = Match None None (Some [c]) None None None None"
  "build_match ((\<lambda>n. None)(G_ELEMENT \<mapsto> [c, d])) = Match None None (Some [c, d]) None None None None"
  by (simp_all add: build_match_eval group_names_def group_step_def empty_match_def)

subsection \<open>The scanning loop on the text of plain tokens\<close>

lemma match_at_Nil: "match_at [] = None"
proof (cases "match_at []")
  case (Some r)
  then show ?thesis
    using match_at_shorter [of "[]" "fst r" "snd r"] by simp
qed simp

lemma scan_loop_exec_cong:
  assumes "exec str i = exec str j"
  shows "scan_loop str i = scan_loop str j"
  by (simp only: scan_loop.simps [of str i] scan_loop.simps [of str j] assms)

lemma scan_loop_skip:
  assumes "match_at (c # xs) = None"
  shows "scan_loop (pre @ c # xs) (length pre) = scan_loop ((pre @ [c]) @ xs) (length (pre @ [c]))"
proof -
  have "exec (pre @ c # xs) (length pre) = exec (pre @ c # xs) (Suc (length pre))"
    using assms by (simp add: exec_def)
  from scan_loop_exec_cong [OF this] show ?thesis
    by simp
qed

lemma scan_loop_plain:
  assumes "list_all plain_token ast"
  shows "scan_loop (pre @ stringify ast) (length pre) = Some ast"
  using assms
proof (induction ast arbitrary: pre)
  case Nil
  have "exec pre (length pre) = None"
    by (simp add: exec_def match_at_Nil)
  then show ?case
    by (subst scan_loop.simps) (simp add: stringify_def)
next
  case (Cons t ts)
  let ?S = "stringify ts"
  from Cons.prems have t: "plain_token t" and ts: "list_all plain_token ts"
    by simp_all
  note df = digit_free_stringify [OF ts]
  have step: "scan_loop (pre @ c # tk @ 32 # ?S) (length pre) = Some (t # ts)"
    if m: "match_at (c # tk @ 32 # ?S) = Some (32 # ?S, cs)"
      and b: "build_match cs = t" and nb: "BRACKET t = None" for c tk cs
  proof -
    let ?str = "pre @ c # tk @ 32 # ?S"
    have e: "exec ?str (length pre) = Some (length pre, Suc (length pre + length tk), cs)"
      using m by (simp add: exec_def)
    have "scan_loop ((pre @ c # tk) @ 32 # ?S) (length (pre @ c # tk))
        = scan_loop (((pre @ c # tk) @ [32]) @ ?S) (length ((pre @ c # tk) @ [32]))"
      by (rule scan_loop_skip) (rule match_at_space [OF df])
    also have "\<dots> = Some ts"
      by (rule Cons.IH [OF ts])
    finally have rest: "scan_loop ?str (Suc (length pre + length tk)) = Some ts"
      by simp
    show ?thesis
      by (subst scan_loop.simps) (simp add: e b nb next_lastIndex_def rest)
  qed
  from t show ?case
  proof (cases t rule: plain_token_cases)
    case sum
    from step [of c_plus "[]", OF _ build_match_plain(1) [folded sum]] sum show ?thesis
      by (simp add: stringify_Cons stringify_token_plain match_at_plus)
  next
    case yield
    from step [of c_yield "[]", OF _ build_match_plain(2) [folded yield]] yield df show ?thesis
      by (simp add: stringify_Cons stringify_token_plain match_at_yield digit_free_Cons space_facts)
  next
    case (one c)
    from step [of c "[]", OF _ build_match_plain(3) [of c, folded one(2)]] one df show ?thesis
      by (simp add: stringify_Cons stringify_token_plain match_at_letter)
  next
    case (two c d)
    from step [of c "[d]", OF _ build_match_plain(4) [of c d, folded two(3)]] two df show ?thesis
      by (simp add: stringify_Cons stringify_token_plain match_at_letters)
  qed
qed

text \<open>C4, amended. For every token list that consists only of sum signs, yield arrows and
  element symbols of one or two letters with neither count nor charge, rendering it and
  scanning the rendered string gives the same token list back; so each such list is
  produced by \<^verbatim>\<open>scan\<close>, and its elements, counts and charges survive the round trip. A
  bracket, a count or a charge is rendered with glyphs the scanner does not read (and a
  bracket without its brackets), and is not read back.\<close>

theorem round_trip_plain:
  assumes "list_all plain_token ast"
  shows "scan (stringify ast) = Some ast"
  using scan_loop_plain [OF assms, of "[]"] by (simp add: scan_def)

theorem round_trip_plain_witness:
  "plain_token (Match None None (Some (ascii ''Na'')) None None None None)
   \<and> plain_token (Match (Some (ascii ''+'')) None None None None None None)
   \<and> plain_token (Match None (Some [c_yield]) None None None None None)
   \<and> plain_token (Match None None (Some (ascii ''K'')) None None None None)
   \<and> stringify [Match None None (Some (ascii ''Na'')) None None None None,
                Match (Some (ascii ''+'')) None None None None None None,
                Match None None (Some (ascii ''Cl'')) None None None None,
                Match None (Some [c_yield]) None None None None None,
                Match None None (Some (ascii ''K'')) None None None None]
       = ascii ''Na + Cl '' @ [c_yield] @ ascii '' K ''
   \<and> scan (ascii ''Na + Cl '' @ [c_yield] @ ascii '' K '')
       = Some [Match None None (Some (ascii ''Na'')) None None None None,
               Match (Some (ascii ''+'')) None None None None None None,
               Match None None (Some (ascii ''Cl'')) None None None None,
               Match None (Some [c_yield]) None None None None None,
               Match None None (Some (ascii ''K'')) None None None None]"
proof -
  let ?ast = "[Match None None (Some (ascii ''Na'')) None None None None,
               Match (Some (ascii ''+'')) None None None None None None,
               Match None None (Some (ascii ''Cl'')) None None None None,
               Match None (Some [c_yield]) None None None None None,
               Match None None (Some (ascii ''K'')) None None None None]"
  have p: "plain_token (Match None None (Some (ascii ''Na'')) None None None None)"
    "plain_token (Match (Some (ascii ''+'')) None None None None None None)"
    "plain_token (Match None None (Some (ascii ''Cl'')) None None None None)"
    "plain_token (Match None (Some [c_yield]) None None None None None)"
    "plain_token (Match None None (Some (ascii ''K'')) None None None None)"
    by (simp_all add: plain_token_def is_letter_def ascii_def)
  then have all: "list_all plain_token ?ast"
    by simp
  have s: "stringify ?ast = ascii ''Na + Cl '' @ [c_yield] @ ascii '' K ''"
    by (simp add: stringify_def stringify_token_plain ascii_def)
  from round_trip_plain [OF all] have "scan (ascii ''Na + Cl '' @ [c_yield] @ ascii '' K '') = Some ?ast"
    unfolding s .
  with p s show ?thesis
    by (intro conjI)
qed

section \<open>Element symbols and keys of scanned text\<close>

subsection \<open>The element group captures at most two code units\<close>

lemma element_run:
  assumes "rmatch (Seq (Cls is_letter) (Opt (Cls is_letter))) xs cs k = Some res"
  shows "\<exists>ys. k ys cs = Some res \<and> length ys \<le> length xs \<and> length xs - length ys \<le> 2"
proof -
  from assms obtain c zs where xs: "xs = c # zs"
    and 1: "rmatch (Opt (Cls is_letter)) zs cs k = Some res"
    by (auto split: list.splits if_splits)
  from 1 consider d ws where "zs = d # ws" "k ws cs = Some res" | "k zs cs = Some res"
    by (auto split: list.splits if_splits option.splits)
  then show ?thesis
  proof cases
    case 1
    then show ?thesis
      by (intro exI [of _ ws]) (simp add: xs)
  next
    case 2
    then show ?thesis
      by (intro exI [of _ zs]) (simp add: xs)
  qed
qed

lemma elm_alt_element:
  assumes "rmatch elm_alt xs (\<lambda>n. None) (\<lambda>ys cs. Some (ys, cs)) = Some (ys, cs)"
    and "cs G_ELEMENT = Some v"
  shows "length v \<le> 2"
proof -
  let ?optA = "Opt (seqs [Star is_space, Group G_ELM_MULT_A NumberPattern, Star is_space,
                Cls (is_char c_star), Star is_space])"
  let ?E = "Seq (Cls is_letter) (Opt (Cls is_letter))"
  let ?rest = "seqs [
     Opt (seqs [Star is_space, Cls (is_char c_star), Star is_space, Opt (Cls (is_char c_plus)),
                Star is_space, Group G_ELM_MULT_B NumberPattern, Star is_space]),
     Opt (seqs [Star is_space, Cls (is_char c_caret), Star is_space,
                Group G_ELM_CHARGE NumberPattern, Star is_space])]"
  let ?k0 = "\<lambda>ys cs. Some (ys, cs)"
  have "rmatch ?optA xs (\<lambda>n. None)
          (\<lambda>ys cs'. rmatch (Seq (Group G_ELEMENT ?E) ?rest) ys cs' ?k0) = Some (ys, cs)"
    using assms(1) by (simp add: elm_alt_def)
  from rmatch_run [OF this] obtain ys1 cs1 where
    1: "rmatch (Seq (Group G_ELEMENT ?E) ?rest) ys1 cs1 ?k0 = Some (ys, cs)"
    by auto
  then have "rmatch ?E ys1 cs1
      (\<lambda>ys2 cs2. rmatch ?rest ys2 (cs2(G_ELEMENT \<mapsto> take (length ys1 - length ys2) ys1)) ?k0)
      = Some (ys, cs)"
    by simp
  from element_run [OF this] obtain ys2 where
    2: "rmatch ?rest ys2 (cs1(G_ELEMENT \<mapsto> take (length ys1 - length ys2) ys1)) ?k0 = Some (ys, cs)"
    and len: "length ys1 - length ys2 \<le> 2"
    by auto
  from rmatch_run [OF 2] have
    "caps_step ?rest (length ys2) (cs1(G_ELEMENT \<mapsto> take (length ys1 - length ys2) ys1)) cs"
    by auto
  then have "cs G_ELEMENT = Some (take (length ys1 - length ys2) ys1)"
    by (simp add: caps_step_def gnames_NumberPattern)
  with assms(2) len show ?thesis
    by auto
qed

lemma match_at_element:
  assumes "match_at xs = Some (ys, cs)" and "cs G_ELEMENT = Some v"
  shows "length v \<le> 2"
proof -
  let ?k0 = "\<lambda>ys cs. Some (ys, cs)" and ?c0 = "\<lambda>n. None :: jsstring option"
  from assms(1) consider
      "rmatch (Group G_SUM (Cls (is_char c_plus))) xs ?c0 ?k0 = Some (ys, cs)"
    | "rmatch frm_alt xs ?c0 ?k0 = Some (ys, cs)"
    | "rmatch elm_alt xs ?c0 ?k0 = Some (ys, cs)"
    | "rmatch (Group G_FREE_CHARGE NumberPattern) xs ?c0 ?k0 = Some (ys, cs)"
    | "rmatch (Group G_YIELD (Cls (is_char c_yield))) xs ?c0 ?k0 = Some (ys, cs)"
    unfolding match_at_def regex_def by (blast dest: alt_cases)
  then have "rmatch elm_alt xs ?c0 ?k0 = Some (ys, cs)"
  proof cases
    case 3
    then show ?thesis .
  next
    case 1
    from final_run(2) [OF this, of G_ELEMENT] assms(2) show ?thesis by simp
  next
    case 2
    from final_run(2) [OF this, of G_ELEMENT] assms(2) show ?thesis
      by (simp add: gnames_frm_alt)
  next
    case 4
    from final_run(2) [OF this, of G_ELEMENT] assms(2) show ?thesis
      by (simp add: gnames_NumberPattern)
  next
    case 5
    from final_run(2) [OF this, of G_ELEMENT] assms(2) show ?thesis by simp
  qed
  from elm_alt_element [OF this assms(2)] show ?thesis .
qed

lemma exec_element:
  assumes "exec str i = Some (index, e, groups)" and "groups G_ELEMENT = Some v"
  shows "length v \<le> 2"
proof -
  from assms(1) have "search (drop i str) i = Some (index, e, groups)"
    by (auto simp: exec_def split: if_splits)
  from search_facts [OF this] obtain zs ys where "match_at zs = Some (ys, groups)"
    by blast
  from match_at_element [OF this assms(2)] show ?thesis .
qed

subsection \<open>The tokens of a scan\<close>

lemma short_names_iff:
  "short_names m \<longleftrightarrow>
     (case ELEMENT m of None \<Rightarrow> True | Some name \<Rightarrow> length name \<le> 2)
     \<and> (case BRACKET m of Some (Body items) \<Rightarrow> list_all short_names items | _ \<Rightarrow> True)"
  by (cases m) simp

lemma ELEMENT_set_BRACKET: "ELEMENT (set_BRACKET b m) = ELEMENT m"
  by (cases m) simp

lemma BRACKET_set_BRACKET: "BRACKET (set_BRACKET b m) = b"
  by (cases m) simp

lemma short_names_build_match:
  assumes "\<And>v. groups G_ELEMENT = Some v \<Longrightarrow> length v \<le> 2"
  shows "short_names (build_match groups)"
    and "list_all short_names body \<Longrightarrow>
           short_names (set_BRACKET (Some (Body body)) (build_match groups))"
  using assms
  by (auto simp: short_names_iff ELEMENT_build_match BRACKET_build_match
      ELEMENT_set_BRACKET BRACKET_set_BRACKET split: option.splits bracket.splits)

lemma scan_loop_short_names:
  "scan_loop str i = Some ast \<Longrightarrow> list_all short_names ast"
proof (induction "length str" arbitrary: str i ast rule: less_induct)
  case less
  from less.prems show ?case
  proof (induction "Suc (length str) - i" arbitrary: i ast rule: less_induct)
    case inner: less
    show ?case
    proof (cases "exec str i")
      case None
      with inner.prems have "ast = []"
        by (subst (asm) scan_loop.simps) simp
      then show ?thesis by simp
    next
      case (Some r)
      obtain index e groups where r: "r = (index, e, groups)"
        by (cases r)
      note ex = Some [unfolded r]
      let ?tok = "case BRACKET (build_match groups) of
               Some (Raw b) \<Rightarrow>
                 if length b > 2
                 then Option.bind (scan_loop b 0)
                        (\<lambda>body. Some (set_BRACKET (Some (Body body)) (build_match groups)))
                 else Some (build_match groups)
             | _ \<Rightarrow> Some (build_match groups)"
      from inner.prems ex obtain m matches where
        m: "?tok = Some m"
        and rest: "scan_loop str (next_lastIndex index e) = Some matches"
        and ast: "ast = m # matches"
        by (subst (asm) scan_loop.simps) (auto simp: bind_eq_Some_conv)
      have "Suc (length str) - next_lastIndex index e < Suc (length str) - i"
        using next_lastIndex_exec [OF ex] exec_facts(1,2,3) [OF ex] by simp
      from inner.hyps [OF this rest] have matches: "list_all short_names matches" .
      note el = exec_element [OF ex]
      have "short_names m"
      proof (cases "BRACKET (build_match groups)")
        case None
        with m short_names_build_match(1) [of groups, OF el] show ?thesis
          by simp
      next
        case (Some br)
        show ?thesis
        proof (cases br)
          case (Body items)
          with Some m short_names_build_match(1) [of groups, OF el] show ?thesis
            by simp
        next
          case (Raw b)
          show ?thesis
          proof (cases "length b > 2")
            case False
            with Some Raw m short_names_build_match(1) [of groups, OF el] show ?thesis
              by simp
          next
            case True
            with Some Raw m obtain body where body: "scan_loop b 0 = Some body"
              and mm: "m = set_BRACKET (Some (Body body)) (build_match groups)"
              by (auto simp: bind_eq_Some_conv)
            from Some Raw have "groups G_BRACKET = Some b"
              by (auto simp: BRACKET_build_match split: option.splits if_splits)
            from exec_facts(4) [OF ex this] have "length b < length str"
              by simp
            from less.hyps [OF this body] have "list_all short_names body" .
            from short_names_build_match(2) [of groups, OF el this] mm show ?thesis
              by simp
          qed
        qed
      qed
      with matches ast show ?thesis
        by simp
    qed
  qed
qed

subsection \<open>The keys of a simplified compound\<close>

lemma set_keys_set_prop: "set (keys (set_prop k v t)) = insert k (set (keys t))"
proof -
  have "set (map fst (set_entry k v es)) = insert k (set (map fst es))" for es
    by (induction es) force+
  then show ?thesis
    by (simp add: keys_def set_prop_def)
qed

lemma good_keys_set_prop:
  "good_keys t \<Longrightarrow> k = k_CHARGE \<or> length k \<le> 2 \<Longrightarrow> good_keys (set_prop k v t)"
  by (auto simp: good_keys_def list_all_iff set_keys_set_prop)

lemma good_keys_init: "good_keys (init_abstract\<lparr>dflt := d\<rparr>)" "good_keys init_abstract"
  by (simp_all add: good_keys_def init_abstract_def keys_def)

lemma good_keys_add_count:
  "good_keys a \<Longrightarrow> fst kv = k_CHARGE \<or> length (fst kv) \<le> 2 \<Longrightarrow> good_keys (add_count count kv a)"
  by (auto simp: add_count_def good_keys_set_prop split: option.splits)

lemma good_keys_merge_abs:
  assumes "good_keys a" and "\<And>c. child = Some c \<Longrightarrow> good_keys c"
  shows "good_keys (merge_abs count child a)"
proof (cases child)
  case None
  with assms(1) show ?thesis by (simp add: merge_abs_def)
next
  case (Some c)
  have "good_keys (fold (add_count count) es a)"
    if "\<forall>kv\<in>set es. fst kv = k_CHARGE \<or> length (fst kv) \<le> 2" for es
    using that assms(1) by (induction es arbitrary: a) (auto simp: good_keys_add_count)
  moreover from assms(2) [OF Some]
  have "\<forall>kv\<in>set (entries c). fst kv = k_CHARGE \<or> length (fst kv) \<le> 2"
    by (auto simp: good_keys_def list_all_iff keys_def)
  ultimately show ?thesis
    by (simp add: merge_abs_def Some)
qed

lemma good_keys_fold_merge:
  assumes "good_keys a"
    and "\<And>item c. item \<in> set items \<Longrightarrow> f item = Some c \<Longrightarrow> good_keys c"
  shows "good_keys (fold (\<lambda>item abstract. merge_abs count (f item) abstract) items a)"
  using assms by (induction items arbitrary: a) (auto intro: good_keys_merge_abs)

lemma simplifyCompound_good_keys:
  "short_names m \<Longrightarrow> simplifyCompound m branch = Some a \<Longrightarrow> good_keys a"
proof (induction m branch arbitrary: a rule: simplifyCompound.induct)
  case (1 s y e b c ch f branch)
  show ?case
  proof (cases e)
    case (Some element)
    with "1.prems" show ?thesis
      by (auto intro!: good_keys_set_prop good_keys_init)
  next
    case None
    note e = this
    show ?thesis
    proof (cases b)
      case None
      with e "1.prems" show ?thesis
        by (auto intro!: good_keys_set_prop good_keys_init split: option.splits)
    next
      case (Some br)
      show ?thesis
      proof (cases br)
        case (Raw raw)
        with e Some "1.prems" show ?thesis
          by (auto simp: Let_def intro!: good_keys_set_prop good_keys_init)
      next
        case (Body items)
        have "good_keys c" if "item \<in> set items" "simplifyCompound item True = Some c" for item c
          using "1.IH" [OF e Some refl refl refl Body that(1) _ that(2)] that(1) "1.prems"(1)
          by (simp add: Some Body list_all_iff)
        with e Some Body "1.prems" show ?thesis
          by (auto simp: Let_def intro!: good_keys_fold_merge good_keys_set_prop good_keys_init)
      qed
    qed
  qed
qed

lemma good_keys_not_undefined: "good_keys c \<Longrightarrow> ascii ''undefined'' \<notin> set (keys c)"
  by (auto simp: good_keys_def list_all_iff k_CHARGE_def ascii_def)

lemma compounds_mem: "c \<in> set (compounds ts) \<Longrightarrow> Some c \<in> set ts"
  by (auto simp: compounds_def)

lemma sides_mem:
  assumes "c \<in> set (leftTokens ast index @ rightTokens ast index)"
  shows "\<exists>tok\<in>set ast. simplifyCompound tok False = Some c"
proof -
  from assms have "Some c \<in> set (map (\<lambda>tok. simplifyCompound tok False) ast)"
    by (auto simp: leftTokens_def rightTokens_def dest!: compounds_mem
        dest: in_set_takeD in_set_dropD)
  then show ?thesis
    by auto
qed

text \<open>No compound of a scanned text has a key spelled \<^verbatim>\<open>undefined\<close>.\<close>

lemma scan_keys:
  assumes "scan text = Some ast"
  shows "\<forall>c\<in>set (leftTokens ast index @ rightTokens ast index).
           ascii ''undefined'' \<notin> set (keys c)"
proof
  fix c assume "c \<in> set (leftTokens ast index @ rightTokens ast index)"
  from sides_mem [OF this] obtain tok where tok: "tok \<in> set ast"
    and c: "simplifyCompound tok False = Some c"
    by blast
  from assms have "list_all short_names ast"
    unfolding scan_def by (rule scan_loop_short_names)
  with tok have "short_names tok"
    by (simp add: list_all_iff)
  from good_keys_not_undefined [OF simplifyCompound_good_keys [OF this c]]
  show "ascii ''undefined'' \<notin> set (keys c)" .
qed

section \<open>Equations that cannot be balanced\<close>

text \<open>C1. The conservation of every symbol by the coefficients of a successful
  computation does not hold of the code. \<^verbatim>\<open>solve\<close> is documented as returning the solution
  of \<^verbatim>\<open>A x = b\<close>, but it solves the normal equations and never compares \<^verbatim>\<open>A x\<close> with \<^verbatim>\<open>b\<close>.
  On \<^verbatim>\<open>[H O]\<Rightarrow>[H*2 O]\<close> the validators pass, the system has no solution, and \<^verbatim>\<open>compute\<close>
  succeeds with the coefficients 0.8333 and 0.5: the left side then has 0.8333 hydrogen
  and the right side 1. (On this input the doubles of the program differ from the exact
  values by less than the rounding to four decimals removes.)\<close>

theorem unbalanced_coefficients_counterexample:
  "scan (ascii ''[H O]'' @ [c_yield] @ ascii ''[H*2 O]'') = Some unbalanced_ast
   \<and> coefficients unbalanced_ast = Some [8333 / 10000, 1 / 2]
   \<and> indexOfYield unbalanced_ast = Some 1
   \<and> 8333 / 10000 * count_for (leftTokens unbalanced_ast 1 ! 0) (ascii ''H'')
       \<noteq> 1 / 2 * count_for (rightTokens unbalanced_ast 1 ! 0) (ascii ''H'')
   \<and> \<not> balanced (leftTokens unbalanced_ast 1) (rightTokens unbalanced_ast 1)
         [8333 / 10000, 1 / 2]"
proof -
  have h: "8333 / 10000 * count_for (leftTokens unbalanced_ast 1 ! 0) (ascii ''H'')
       \<noteq> 1 / 2 * count_for (rightTokens unbalanced_ast 1 ! 0) (ascii ''H'')"
    unfolding unbalanced_left unbalanced_right
    by (simp add: count_for_def get_prop_def k_CHARGE_def ascii_def)
  have "\<not> balanced (leftTokens unbalanced_ast 1) (rightTokens unbalanced_ast 1)
         [8333 / 10000, 1 / 2]"
  proof
    assume "balanced (leftTokens unbalanced_ast 1) (rightTokens unbalanced_ast 1)
         [8333 / 10000, 1 / 2]"
    then have "(\<Sum>j<length (leftTokens unbalanced_ast 1).
                  [8333 / 10000, 1 / 2] ! j * count_for (leftTokens unbalanced_ast 1 ! j) (ascii ''H''))
        = (\<Sum>j<length (rightTokens unbalanced_ast 1).
                  [8333 / 10000, 1 / 2] ! (length (leftTokens unbalanced_ast 1) + j)
                  * count_for (rightTokens unbalanced_ast 1 ! j) (ascii ''H''))"
      unfolding balanced_def by (rule spec)
    then show False
      unfolding unbalanced_left unbalanced_right
      by (simp add: count_for_def get_prop_def k_CHARGE_def ascii_def)
  qed
  with h unbalanced_scan unbalanced_coeffs unbalanced_index show ?thesis
    by (intro conjI)
qed

text \<open>C3. That the pinned compound receives its declared value does not hold of the
  code, for the same reason: the pin is one more row of a system that is solved in the
  least-squares sense. On \<^verbatim>\<open>2*[H O]\<Rightarrow>[H*2 O]\<close> the first compound is pinned to 2 and
  \<^verbatim>\<open>compute\<close> succeeds, but the coefficient it returns for that compound is 1.6667.\<close>

theorem pinned_coefficient_counterexample:
  "scan (ascii ''2*[H O]'' @ [c_yield] @ ascii ''[H*2 O]'') = Some pinned_unbalanced_ast
   \<and> coefficients pinned_unbalanced_ast = Some [16667 / 10000, 1]
   \<and> indexOfYield pinned_unbalanced_ast = Some 1
   \<and> has_default (leftTokens pinned_unbalanced_ast 1 ! 0)
   \<and> dflt (leftTokens pinned_unbalanced_ast 1 ! 0) = Some 2
   \<and> [16667 / 10000, 1 :: num] ! 0 \<noteq> 2"
  using pinned_unbalanced_scan pinned_unbalanced_coeffs pinned_unbalanced_index
  unfolding pinned_unbalanced_left by (simp add: has_default_def truthy_def)

end
